theory Spec2Isabelle
  imports Main
begin

section \<open>JavaScript values\<close>

text \<open>
  The values that flow through \<^verbatim>\<open>Agency.js\<close>: job inputs and results, briefs, job
  contexts and memory entries. Numbers are integers here (no \<^verbatim>\<open>NaN\<close>, no fractions),
  \<^verbatim>\<open>new Date()\<close> is the reading of a clock, and an object is the list of its own
  properties in insertion order (JavaScript enumerates the keys that are array indices
  first; the list keeps every key where it was inserted). A string is a list of 8-bit
  characters, read as the code units U+0000 to U+00FF.
\<close>

datatype jv =
    JUndef
  | JNull
  | JBool bool
  | JNum int
  | JStr string
  | JDate nat
  | JArr "jv list"
  | JObj "(string \<times> jv) list"

type_synonym obj = "(string \<times> jv) list"

text \<open>
  What reading a property gives: a value of the above kind, or a member that the value
  finds on its prototype chain (a built-in method, or the prototype itself). Of such a
  member only what \<^verbatim>\<open>Array.isArray(m) ? 'array' : typeof m\<close> says about it is kept.
\<close>

datatype member = Data jv | Builtin string

text \<open>Truthiness, as \<^verbatim>\<open>if (x)\<close>, \<^verbatim>\<open>x && y\<close> and \<^verbatim>\<open>x || y\<close> test it.\<close>

fun truthy :: "jv \<Rightarrow> bool" where
  "truthy JUndef = False"
| "truthy JNull = False"
| "truthy (JBool b) = b"
| "truthy (JNum n) = (n \<noteq> 0)"
| "truthy (JStr s) = (s \<noteq> [])"
| "truthy (JDate t) = True"
| "truthy (JArr xs) = True"
| "truthy (JObj ps) = True"

definition js_or :: "jv \<Rightarrow> jv \<Rightarrow> jv" where
  "js_or a b = (if truthy a then a else b)"

text \<open>\<^verbatim>\<open>o[k]\<close> on an object: the value, or \<^verbatim>\<open>undefined\<close>.\<close>

definition lookup :: "obj \<Rightarrow> string \<Rightarrow> jv" where
  "lookup ps k = (case map_of ps k of None \<Rightarrow> JUndef | Some v \<Rightarrow> v)"

text \<open>\<^verbatim>\<open>o[k] = v\<close>: an existing key keeps its place, a new key goes last.\<close>

fun set_prop :: "string \<Rightarrow> jv \<Rightarrow> obj \<Rightarrow> obj" where
  "set_prop k v [] = [(k, v)]"
| "set_prop k v (p # ps) = (if fst p = k then (k, v) # ps else p # set_prop k v ps)"

text \<open>\<^verbatim>\<open>delete o[k]\<close>.\<close>

definition del_prop :: "string \<Rightarrow> obj \<Rightarrow> obj" where
  "del_prop k ps = filter (\<lambda>p. fst p \<noteq> k) ps"

text \<open>
  \<^verbatim>\<open>{...a, ...b}\<close>: the properties of \<open>a\<close>, then each key of \<open>b\<close>, in order, written
  over them with the value \<open>b\<close> has for it.
\<close>

definition spread :: "obj \<Rightarrow> obj \<Rightarrow> obj" where
  "spread a b = fold (\<lambda>p. set_prop (fst p) (lookup b (fst p))) b a"

text \<open>
  A workflow step may give one value or an array of values for \<^verbatim>\<open>jobId\<close>,
  \<^verbatim>\<open>assigneeId\<close>, \<^verbatim>\<open>assigneeType\<close>, \<^verbatim>\<open>inputs\<close> and \<^verbatim>\<open>brief\<close>, or leave the
  field out.
\<close>

datatype 'a oom = Absent | One 'a | Many "'a list"

text \<open>\<^verbatim>\<open>Array.isArray(x) ? x[index] : x\<close>; \<open>None\<close> is \<^verbatim>\<open>undefined\<close>.\<close>

fun pick :: "'a oom \<Rightarrow> nat \<Rightarrow> 'a option" where
  "pick Absent i = None"
| "pick (One a) i = Some a"
| "pick (Many xs) i = (if i < length xs then Some (xs ! i) else None)"

text \<open>Decimal digits of a natural number, for identifiers and keys built by template strings.\<close>

definition digit :: "nat \<Rightarrow> char" where
  "digit n = ''0123456789'' ! n"

fun show_nat :: "nat \<Rightarrow> string" where
  "show_nat n = (if n < 10 then [digit n] else show_nat (n div 10) @ [digit (n mod 10)])"

declare show_nat.simps [simp del]

fun join_with :: "string \<Rightarrow> string list \<Rightarrow> string" where
  "join_with sep [] = []"
| "join_with sep [x] = x"
| "join_with sep (x # y # ys) = x @ sep @ join_with sep (y # ys)"

text \<open>
  The string a step field turns into when it is used as a property key or inside a
  template string: an array is joined with commas, a missing field reads \<^verbatim>\<open>undefined\<close>.
  Identifiers are strings in this model; where the source would keep the array itself as
  an identifier, the model keeps this string.
\<close>

fun as_key :: "string oom \<Rightarrow> string" where
  "as_key Absent = ''undefined''"
| "as_key (One k) = k"
| "as_key (Many ks) = join_with '','' ks"

fun opt_key :: "string option \<Rightarrow> string" where
  "opt_key None = ''undefined''"
| "opt_key (Some k) = k"

section \<open>Errors\<close>

text \<open>
  Every \<^verbatim>\<open>throw new Error(...)\<close> of the source is a constructor; the constructor stands
  for the error and for its \<^verbatim>\<open>message\<close>. \<open>RunFailed\<close> is the rejection of an assignee's
  \<^verbatim>\<open>run\<close> and \<open>HandlerFailed\<close> an exception of a registered handler, both with their
  message; \<open>TypeError\<close> is a property read or method call on a value that has none.
\<close>

datatype violation =
    MissingRequired string
  | WrongType string string string
  | NotInEnum string "jv list" member

datatype step_kind = SequentialStep | ConditionalStep | ParallelStep

datatype error =
    ScopeExists string
  | ScopeNotFound string
  | JobContextNotFound string
  | NoBriefFound string
  | AssigneeNotFound string string
  | NoActiveJob string
  | NoJobFound string
  | NotInFailedState string
  | MaxRetriesReached int string
  | InputValidationFailed "violation list"
  | OutputValidationFailed "violation list"
  | RunFailed string
  | HandlerFailed string
  | TypeError string
  | SyntaxError string
  | StepFailed step_kind nat string "error option"
  | AgentNotFound string
  | JobNotFound string
  | NoGoalContext string
  | ExtractedJsonFailed error
  | PlanNotArray jv
  | ReplanParseFailed error
  | ReplanNotArray jv

section \<open>Memory scopes\<close>

text \<open>
  \<^verbatim>\<open>MemoryManager\<close>: the key-value store. \<^verbatim>\<open>shareMemoryBetween\<close> replaces the
  \<^verbatim>\<open>remember\<close> method of a target scope by a closure that refuses one key and hands every
  other key to the method it replaced; \<open>wrappers\<close> lists the keys of these closures, the
  outermost (latest) first. The conversation history and the scope's own event emitter,
  which \<^verbatim>\<open>Agency.js\<close> never reads, are left out.
\<close>

record memory =
  keyValueStore :: obj
  wrappers :: "string list"

definition new_memory :: memory where
  "new_memory = \<lparr>keyValueStore = [], wrappers = []\<rparr>"

text \<open>\<^verbatim>\<open>MemoryManager.remember\<close> as the class defines it; it returns \<^verbatim>\<open>undefined\<close>.\<close>

definition base_remember :: "memory \<Rightarrow> string \<Rightarrow> jv \<Rightarrow> jv \<times> memory" where
  "base_remember m k v = (JUndef, m\<lparr>keyValueStore := set_prop k v (keyValueStore m)\<rparr>)"

text \<open>The chain of closures installed over it: each returns \<^verbatim>\<open>false\<close> on its own key.\<close>

fun remember_via :: "string list \<Rightarrow> memory \<Rightarrow> string \<Rightarrow> jv \<Rightarrow> jv \<times> memory" where
  "remember_via [] m k v = base_remember m k v"
| "remember_via (key # rest) m k v =
     (if k = key then (JBool False, m) else remember_via rest m k v)"

text \<open>\<^verbatim>\<open>scope.remember(k, v)\<close>: whatever method the scope object carries now.\<close>

definition remember :: "memory \<Rightarrow> string \<Rightarrow> jv \<Rightarrow> jv \<times> memory" where
  "remember m k v = remember_via (wrappers m) m k v"

definition recall :: "memory \<Rightarrow> string \<Rightarrow> jv" where
  "recall m k = lookup (keyValueStore m) k"

text \<open>A run of \<^verbatim>\<open>remember\<close> calls on one scope, results dropped.\<close>

fun remember_all :: "memory \<Rightarrow> (string \<times> jv) list \<Rightarrow> memory" where
  "remember_all m [] = m"
| "remember_all m (p # ps) = remember_all (snd (remember m (fst p) (snd p))) ps"

record grant =
  sourceScope :: string
  accessMode :: string
  sharedAt :: nat

section \<open>Jobs, schemas, workflows, events\<close>

datatype status = assigned | in_progress | completed | failed

text \<open>
  A job object. \<open>None\<close> in \<open>startedAt\<close>, \<open>completedAt\<close>, \<open>error\<close> and \<open>retryCount\<close>
  is a property that is missing or \<^verbatim>\<open>null\<close>; \<open>error\<close> holds \<^verbatim>\<open>error.message\<close>.
\<close>

record job =
  jobId :: string
  jbrief :: obj
  assigneeId :: string
  assigneeType :: "string oom"
  status :: status
  assignedAt :: nat
  startedAt :: "nat option"
  completedAt :: "nat option"
  results :: jv
  error :: "error option"
  retryCount :: "nat option"

text \<open>Schema descriptor of one field: \<^verbatim>\<open>{required, type, enum}\<close>, each optional.\<close>

record field_schema =
  required :: bool
  ftype :: "string option"
  enum :: "jv list option"

type_synonym schema = "(string \<times> field_schema) list"

record job_schema =
  inputSchema :: "schema option"
  outputSchema :: "schema option"

text \<open>
  A step of a workflow definition. \<open>stype = None\<close> is a step without \<^verbatim>\<open>type\<close>
  (the destructuring default makes it \<^verbatim>\<open>'sequential'\<close>). The condition of a conditional
  step is a caller's function of the current data and the workflow's memory scope; the
  model takes it as a pure predicate (its result read for truthiness).
\<close>

record step =
  sjobId :: "string oom"
  sassigneeId :: "string oom"
  sassigneeType :: "string oom"
  inputs :: "obj oom"
  stype :: "string option"
  sbrief :: "obj oom"
  condition :: "(jv \<Rightarrow> memory \<Rightarrow> bool) option"

datatype wf_status = wf_in_progress | wf_completed | wf_failed

record workflow =
  wid :: string
  wdefinition :: "step list"
  wstatus :: wf_status
  wstartedAt :: nat
  currentStep :: nat
  wresults :: obj
  werror :: "error option"
  wcompletedAt :: "nat option"

text \<open>What \<^verbatim>\<open>executeWorkflow\<close> resolves to.\<close>

datatype wf_result =
    WfCompleted string obj
  | WfFailed string error nat obj
  | WfHandled jv

text \<open>The event catalogue: one constructor per event name, with its payload.\<close>

datatype event =
    BriefCreated string obj
  | JobContextCreated string obj
  | JobContextUpdated string obj "string list"
  | JobAssigned string string "string oom"
  | JobStarted string
  | JobCompleted string jv
  | JobFailed string error
  | JobRetrying string nat int
  | JobCleaned string bool
  | MemoryShared string string "string list" string
  | WorkflowStarted string nat
  | WorkflowStep string nat "string oom" "string oom" "string oom" string
  | WorkflowStepSkipped string nat
  | WorkflowCompleted string obj
  | WorkflowFailed string error nat
  | WorkflowCleaned string bool

text \<open>
  What an assignee's \<^verbatim>\<open>run\<close> receives. An agent gets the prompt that
  \<^verbatim>\<open>formatBriefAsPrompt\<close> builds and \<^verbatim>\<open>{jobId, jobContext}\<close>; a team gets the merged
  inputs and \<^verbatim>\<open>{brief, jobId, jobContext}\<close>; the planner gets the planning prompt for a
  goal, the re-planner the prompt built from the failed brief's goal, task name and
  overview and the error's message. A prompt is kept as the list of its sections, each with the
  values interpolated into it; rendering the sections into one string is not modelled.
\<close>

type_synonym prompt = "(string \<times> jv list) list"

datatype run_input =
    AgentPrompt prompt obj
  | TeamInputs obj obj
  | PlanningPrompt string
  | ReplanningPrompt jv jv jv string

text \<open>
  The Runnable capability: \<^verbatim>\<open>run\<close> resolves to a result (\<open>Inr\<close>) or rejects with an
  error (\<open>Inl\<close>). It is opaque to the engine; the model takes it as a function of its
  input that does not touch the agency.
\<close>

type_synonym runnable = "run_input \<Rightarrow> error + jv"

section \<open>The agency\<close>

text \<open>
  The fields of the \<^verbatim>\<open>Agency\<close> object. \<^verbatim>\<open>this.memoryScopes.global\<close> and
  \<^verbatim>\<open>this.globalMemory\<close> are one object, never removed: the model keeps it in
  \<open>globalMemory\<close>, and \<open>memoryScopes\<close> holds the other scopes. \<open>events\<close> is the sequence
  of events emitted so far (listeners are not modelled; an exception of a listener is
  caught by \<^verbatim>\<open>emit\<close>). \<open>clock\<close> is what \<^verbatim>\<open>new Date()\<close> and \<^verbatim>\<open>Date.now()\<close> read.

  Two fields are observations added by the model and read by no operation:
  \<open>statusLog\<close> records every write to a job's \<^verbatim>\<open>status\<close> as (job id, status before,
  status written), where the status before is \<open>None\<close> when \<^verbatim>\<open>assignJob\<close> installs a job
  under an id that had none; \<open>runLog\<close> records every call of an assignee's \<^verbatim>\<open>run\<close> by
  \<^verbatim>\<open>execute\<close> as (job id, merged inputs, what \<^verbatim>\<open>run\<close> received).
\<close>

record agency =
  agents :: "string \<rightharpoonup> runnable"
  team :: "string \<rightharpoonup> runnable"
  brief :: "string \<rightharpoonup> obj"
  activeJobs :: "string \<rightharpoonup> job"
  globalMemory :: memory
  memoryScopes :: "string \<rightharpoonup> memory"
  jobContexts :: "string \<rightharpoonup> obj"
  workflows :: "string \<rightharpoonup> workflow"
  errorHandlers :: "string \<rightharpoonup> (error \<Rightarrow> job \<Rightarrow> error + jv)"
  workflowErrorHandlers :: "string \<rightharpoonup> (error \<Rightarrow> workflow \<Rightarrow> error + jv)"
  jobSchemas :: "string \<rightharpoonup> job_schema"
  memoryAccessControl :: "string \<rightharpoonup> (string \<rightharpoonup> grant)"
  events :: "event list"
  clock :: nat
  statusLog :: "(string \<times> status option \<times> status) list"
  runLog :: "(string \<times> obj \<times> run_input) list"

definition emit :: "event \<Rightarrow> agency \<Rightarrow> agency" where
  "emit e s = s\<lparr>events := events s @ [e]\<rparr>"

subsection \<open>Memory scopes and sharing\<close>

definition scope_of :: "agency \<Rightarrow> string \<Rightarrow> memory option" where
  "scope_of s scopeId = (if scopeId = ''global'' then Some (globalMemory s) else memoryScopes s scopeId)"

definition put_scope :: "string \<Rightarrow> memory \<Rightarrow> agency \<Rightarrow> agency" where
  "put_scope scopeId m s =
     (if scopeId = ''global'' then s\<lparr>globalMemory := m\<rparr>
      else s\<lparr>memoryScopes := (memoryScopes s)(scopeId \<mapsto> m)\<rparr>)"

definition createMemoryScope :: "agency \<Rightarrow> string \<Rightarrow> error + agency" where
  "createMemoryScope s scopeId =
     (case scope_of s scopeId of
        Some m \<Rightarrow> Inl (ScopeExists scopeId)
      | None \<Rightarrow> Inr (put_scope scopeId new_memory s))"

definition getMemoryScope :: "agency \<Rightarrow> string \<Rightarrow> error + memory" where
  "getMemoryScope s scopeId =
     (case scope_of s scopeId of
        None \<Rightarrow> Inl (ScopeNotFound scopeId)
      | Some m \<Rightarrow> Inr m)"

text \<open>
  One round of the loop of \<^verbatim>\<open>shareMemoryBetween\<close>. The scopes are read from the state
  at each round, so a source that is also the target sees its own writes, as the two
  references to one object do.
\<close>

definition share_key :: "string \<Rightarrow> string \<Rightarrow> string \<Rightarrow> string \<Rightarrow> agency \<Rightarrow> agency" where
  "share_key sourceId targetId mode key s =
     (case (scope_of s sourceId, scope_of s targetId) of
        (Some src, Some tgt) \<Rightarrow>
          (let v = recall src key in
           if v \<noteq> JUndef then
             (let tgt1 = snd (remember tgt key v);
                  acl = (case memoryAccessControl s targetId of None \<Rightarrow> Map.empty | Some g \<Rightarrow> g);
                  g = \<lparr>sourceScope = sourceId, accessMode = mode, sharedAt = clock s\<rparr>;
                  tgt2 = (if mode = ''read-only'' then tgt1\<lparr>wrappers := key # wrappers tgt1\<rparr> else tgt1)
              in (put_scope targetId tgt2 s)\<lparr>memoryAccessControl :=
                    (memoryAccessControl s)(targetId \<mapsto> acl(key \<mapsto> g))\<rparr>)
           else s)
      | _ \<Rightarrow> s)"

fun share_keys :: "string \<Rightarrow> string \<Rightarrow> string \<Rightarrow> string list \<Rightarrow> agency \<Rightarrow> agency" where
  "share_keys sourceId targetId mode [] s = s"
| "share_keys sourceId targetId mode (key # keys) s =
     share_keys sourceId targetId mode keys (share_key sourceId targetId mode key s)"

definition shareMemoryBetween :: "agency \<Rightarrow> string \<Rightarrow> string \<Rightarrow> string list \<Rightarrow> string \<Rightarrow> error + agency" where
  "shareMemoryBetween s sourceId targetId keys mode =
     (case getMemoryScope s sourceId of
        Inl e \<Rightarrow> Inl e
      | Inr src \<Rightarrow>
          (case getMemoryScope s targetId of
             Inl e \<Rightarrow> Inl e
           | Inr tgt \<Rightarrow>
               (let keysToShare = (if length keys > 0 then keys else map fst (keyValueStore src));
                    s1 = s\<lparr>memoryAccessControl := (memoryAccessControl s)(targetId \<mapsto>
                            (case memoryAccessControl s targetId of None \<Rightarrow> Map.empty | Some g \<Rightarrow> g))\<rparr>;
                    s2 = share_keys sourceId targetId mode keysToShare s1
                in Inr (emit (MemoryShared sourceId targetId keysToShare mode) s2))))"

definition getMemoryAccessInfo :: "agency \<Rightarrow> string \<Rightarrow> string \<Rightarrow> grant option" where
  "getMemoryAccessInfo s scopeId key =
     (case memoryAccessControl s scopeId of
        None \<Rightarrow> None
      | Some acl \<Rightarrow> acl key)"

subsection \<open>Briefs, job contexts, assignment\<close>

definition createBrief :: "agency \<Rightarrow> string \<Rightarrow> obj \<Rightarrow> agency" where
  "createBrief s jid briefData =
     (let b = spread [(''jobId'', JStr jid), (''createdAt'', JDate (clock s))] briefData
      in emit (BriefCreated jid b) (s\<lparr>brief := (brief s)(jid \<mapsto> b)\<rparr>))"

definition createJobContext :: "agency \<Rightarrow> string \<Rightarrow> obj \<Rightarrow> agency" where
  "createJobContext s jid initialContext =
     (let c = spread initialContext
                [(''createdAt'', JDate (clock s)), (''updatedAt'', JDate (clock s))]
      in emit (JobContextCreated jid c) (s\<lparr>jobContexts := (jobContexts s)(jid \<mapsto> c)\<rparr>))"

definition updateJobContext :: "agency \<Rightarrow> string \<Rightarrow> obj \<Rightarrow> error + agency" where
  "updateJobContext s jid updates =
     (case jobContexts s jid of
        None \<Rightarrow> Inl (JobContextNotFound jid)
      | Some c \<Rightarrow>
          (let c' = spread (spread c updates) [(''updatedAt'', JDate (clock s))]
           in Inr (emit (JobContextUpdated jid c' (map fst updates))
                     (s\<lparr>jobContexts := (jobContexts s)(jid \<mapsto> c')\<rparr>))))"

text \<open>
  \<^verbatim>\<open>assignJob(jobId, assigneeId, assigneeType = 'agent')\<close>. It puts a new job object
  under \<open>jid\<close>, whatever was there.
\<close>

definition assignJob :: "agency \<Rightarrow> string \<Rightarrow> string \<Rightarrow> string oom \<Rightarrow> (error + job) \<times> agency" where
  "assignJob s jid aid atype =
     (let assigneeType' = (case atype of Absent \<Rightarrow> One ''agent'' | One t \<Rightarrow> One t | Many ts \<Rightarrow> Many ts)
      in case brief s jid of
           None \<Rightarrow> (Inl (NoBriefFound jid), s)
         | Some b \<Rightarrow>
             (case (if assigneeType' = One ''agent'' then agents s aid else team s aid) of
                None \<Rightarrow> (Inl (AssigneeNotFound (as_key assigneeType') aid), s)
              | Some a \<Rightarrow>
                  (let j = \<lparr>jobId = jid, jbrief = b, assigneeId = aid,
                            assigneeType = assigneeType', status = assigned,
                            assignedAt = clock s, startedAt = None, completedAt = None,
                            results = JNull, error = None, retryCount = None\<rparr>;
                       s1 = s\<lparr>activeJobs := (activeJobs s)(jid \<mapsto> j),
                              statusLog := statusLog s @
                                 [(jid, map_option status (activeJobs s jid), assigned)]\<rparr>;
                       s2 = (case jobContexts s1 jid of
                               None \<Rightarrow> createJobContext s1 jid []
                             | Some c \<Rightarrow> s1)
                   in (Inr j, emit (JobAssigned jid aid assigneeType') s2))))"

subsection \<open>Schema validation\<close>

text \<open>\<^verbatim>\<open>Array.isArray(x) ? 'array' : typeof x\<close>.\<close>

fun actualType :: "jv \<Rightarrow> string" where
  "actualType JUndef = ''undefined''"
| "actualType JNull = ''object''"
| "actualType (JBool b) = ''boolean''"
| "actualType (JNum n) = ''number''"
| "actualType (JStr t) = ''string''"
| "actualType (JDate t) = ''object''"
| "actualType (JArr xs) = ''array''"
| "actualType (JObj ps) = ''object''"

text \<open>
  The own properties of a value: the entries of an object, the length and the elements of
  an array, the length and the characters of a string. An index is the decimal numeral of
  a position.
\<close>

definition index_of :: "string \<Rightarrow> nat \<Rightarrow> nat option" where
  "index_of k n = find (\<lambda>i. show_nat i = k) [0..<n]"

fun own_field :: "jv \<Rightarrow> string \<Rightarrow> jv option" where
  "own_field (JObj ps) k = map_of ps k"
| "own_field (JArr xs) k =
     (if k = ''length'' then Some (JNum (int (length xs)))
      else map_option (\<lambda>i. xs ! i) (index_of k (length xs)))"
| "own_field (JStr t) k =
     (if k = ''length'' then Some (JNum (int (length t)))
      else map_option (\<lambda>i. JStr [t ! i]) (index_of k (length t)))"
| "own_field v k = None"

text \<open>
  The names of the methods that the built-in prototypes hold (ECMAScript 2023, with the
  legacy names that engines keep): those of \<^verbatim>\<open>Object.prototype\<close>, which every value
  below inherits, and those that the prototypes of numbers, strings, arrays and dates add.
  \<^verbatim>\<open>Boolean.prototype\<close> adds no name of its own.
\<close>

definition object_members :: "string list" where
  "object_members =
     [''constructor'', ''__defineGetter__'', ''__defineSetter__'', ''hasOwnProperty'',
      ''__lookupGetter__'', ''__lookupSetter__'', ''isPrototypeOf'', ''propertyIsEnumerable'',
      ''toString'', ''valueOf'', ''toLocaleString'']"

definition number_members :: "string list" where
  "number_members = [''toExponential'', ''toFixed'', ''toPrecision'']"

definition string_members :: "string list" where
  "string_members =
     [''anchor'', ''at'', ''big'', ''blink'', ''bold'', ''charAt'', ''charCodeAt'', ''codePointAt'',
      ''concat'', ''endsWith'', ''fontcolor'', ''fontsize'', ''fixed'', ''includes'', ''indexOf'',
      ''isWellFormed'', ''italics'', ''lastIndexOf'', ''link'', ''localeCompare'', ''match'',
      ''matchAll'', ''normalize'', ''padEnd'', ''padStart'', ''repeat'', ''replace'', ''replaceAll'',
      ''search'', ''slice'', ''small'', ''split'', ''strike'', ''sub'', ''substr'', ''substring'',
      ''sup'', ''startsWith'', ''toWellFormed'', ''trim'', ''trimStart'', ''trimLeft'', ''trimEnd'',
      ''trimRight'', ''toLocaleLowerCase'', ''toLocaleUpperCase'', ''toLowerCase'',
      ''toUpperCase'']"

definition array_members :: "string list" where
  "array_members =
     [''at'', ''concat'', ''copyWithin'', ''fill'', ''find'', ''findIndex'', ''findLast'',
      ''findLastIndex'', ''lastIndexOf'', ''pop'', ''push'', ''reverse'', ''shift'', ''unshift'',
      ''slice'', ''sort'', ''splice'', ''includes'', ''indexOf'', ''join'', ''keys'', ''entries'',
      ''values'', ''forEach'', ''filter'', ''flat'', ''flatMap'', ''map'', ''every'', ''some'',
      ''reduce'', ''reduceRight'', ''toReversed'', ''toSorted'', ''toSpliced'', ''with'']"

definition date_members :: "string list" where
  "date_members =
     [''toDateString'', ''toTimeString'', ''toISOString'', ''toUTCString'', ''toGMTString'',
      ''getDate'', ''setDate'', ''getDay'', ''getFullYear'', ''setFullYear'', ''getHours'',
      ''setHours'', ''getMilliseconds'', ''setMilliseconds'', ''getMinutes'', ''setMinutes'',
      ''getMonth'', ''setMonth'', ''getSeconds'', ''setSeconds'', ''getTime'', ''setTime'',
      ''getTimezoneOffset'', ''getUTCDate'', ''setUTCDate'', ''getUTCDay'', ''getUTCFullYear'',
      ''setUTCFullYear'', ''getUTCHours'', ''setUTCHours'', ''getUTCMilliseconds'',
      ''setUTCMilliseconds'', ''getUTCMinutes'', ''setUTCMinutes'', ''getUTCMonth'',
      ''setUTCMonth'', ''getUTCSeconds'', ''setUTCSeconds'', ''getYear'', ''setYear'', ''toJSON'',
      ''toLocaleDateString'', ''toLocaleTimeString'']"

fun members_of :: "jv \<Rightarrow> string list" where
  "members_of (JNum n) = number_members @ object_members"
| "members_of (JStr t) = string_members @ object_members"
| "members_of (JArr xs) = array_members @ object_members"
| "members_of (JDate t) = date_members @ object_members"
| "members_of v = object_members"

text \<open>
  The member that a value inherits under a name, if any: \<^verbatim>\<open>__proto__\<close> is the prototype
  (an array in the case of \<^verbatim>\<open>Array.prototype\<close>), every other one is a function.
\<close>

definition inherited :: "jv \<Rightarrow> string \<Rightarrow> string option" where
  "inherited d k =
     (if k = ''__proto__'' then Some (case d of JArr xs \<Rightarrow> ''array'' | _ \<Rightarrow> ''object'')
      else if k \<in> set (members_of d) then Some ''function''
      else None)"

text \<open>
  \<^verbatim>\<open>data[key]\<close>: a \<^verbatim>\<open>TypeError\<close> on \<^verbatim>\<open>null\<close> and \<^verbatim>\<open>undefined\<close>; otherwise the own
  property, else the inherited member, else \<^verbatim>\<open>undefined\<close>.
\<close>

definition data_field :: "jv \<Rightarrow> string \<Rightarrow> error + member" where
  "data_field d k =
     (if d = JUndef then Inl (TypeError ''Cannot read properties of undefined'')
      else if d = JNull then Inl (TypeError ''Cannot read properties of null'')
      else case own_field d k of
             Some v \<Rightarrow> Inr (Data v)
           | None \<Rightarrow>
               (case inherited d k of
                  Some t \<Rightarrow> Inr (Builtin t)
                | None \<Rightarrow> Inr (Data JUndef)))"

text \<open>\<^verbatim>\<open>x === undefined || x === null\<close>, \<^verbatim>\<open>x !== undefined\<close> and the type of a property read.\<close>

fun missing :: "member \<Rightarrow> bool" where
  "missing (Data v) = (v = JUndef \<or> v = JNull)"
| "missing (Builtin t) = False"

fun defined :: "member \<Rightarrow> bool" where
  "defined (Data v) = (v \<noteq> JUndef)"
| "defined (Builtin t) = True"

fun member_type :: "member \<Rightarrow> string" where
  "member_type (Data v) = actualType v"
| "member_type (Builtin t) = t"

text \<open>
  \<^verbatim>\<open>enum.includes(x)\<close>: primitives compare by value; an object, array or date is
  found only if it is the very same object, which a value produced by a run never is, and
  a schema lists no built-in member.
\<close>

fun primitive :: "jv \<Rightarrow> bool" where
  "primitive (JDate t) = False"
| "primitive (JArr xs) = False"
| "primitive (JObj ps) = False"
| "primitive v = True"

fun enum_includes :: "jv list \<Rightarrow> member \<Rightarrow> bool" where
  "enum_includes vs (Data v) = (primitive v \<and> v \<in> set vs)"
| "enum_includes vs (Builtin t) = False"

text \<open>The body of the loop of \<^verbatim>\<open>_validateAgainstSchema\<close> for one schema entry.\<close>

definition check_field :: "jv \<Rightarrow> string \<Rightarrow> field_schema \<Rightarrow> error + violation list" where
  "check_field d key sv =
     (case data_field d key of
        Inl e \<Rightarrow> Inl e
      | Inr v \<Rightarrow>
          if required sv \<and> missing v then Inr [MissingRequired key]
          else Inr
            ((case ftype sv of
                Some t \<Rightarrow> (if defined v \<and> t \<noteq> [] \<and> member_type v \<noteq> t
                           then [WrongType key t (member_type v)] else [])
              | None \<Rightarrow> [])
             @ (case enum sv of
                  Some vs \<Rightarrow> (if defined v \<and> \<not> enum_includes vs v then [NotInEnum key vs v] else [])
                | None \<Rightarrow> [])))"

fun check_fields :: "jv \<Rightarrow> schema \<Rightarrow> error + violation list" where
  "check_fields d [] = Inr []"
| "check_fields d (p # ps) =
     (case check_field d (fst p) (snd p) of
        Inl e \<Rightarrow> Inl e
      | Inr vs \<Rightarrow> (case check_fields d ps of Inl e \<Rightarrow> Inl e | Inr ws \<Rightarrow> Inr (vs @ ws)))"

text \<open>\<^verbatim>\<open>_validateAgainstSchema\<close>: the list of violations (\<^verbatim>\<open>isValid\<close> is its emptiness).\<close>

definition validateAgainstSchema :: "jv \<Rightarrow> schema option \<Rightarrow> error + violation list" where
  "validateAgainstSchema d sch = (case sch of None \<Rightarrow> Inr [] | Some fs \<Rightarrow> check_fields d fs)"

text \<open>The two validation blocks of \<^verbatim>\<open>execute\<close>: the error they throw, if any.\<close>

definition check_input :: "agency \<Rightarrow> string \<Rightarrow> obj \<Rightarrow> error option" where
  "check_input s jid m =
     (case jobSchemas s jid of
        None \<Rightarrow> None
      | Some js \<Rightarrow>
          (case inputSchema js of
             None \<Rightarrow> None
           | Some fs \<Rightarrow>
               (case validateAgainstSchema (JObj m) (Some fs) of
                  Inl e \<Rightarrow> Some e
                | Inr vs \<Rightarrow> if vs = [] then None else Some (InputValidationFailed vs))))"

definition check_output :: "agency \<Rightarrow> string \<Rightarrow> jv \<Rightarrow> error option" where
  "check_output s jid res =
     (case jobSchemas s jid of
        None \<Rightarrow> None
      | Some js \<Rightarrow>
          (case outputSchema js of
             None \<Rightarrow> None
           | Some fs \<Rightarrow>
               (case validateAgainstSchema res (Some fs) of
                  Inl e \<Rightarrow> Some e
                | Inr vs \<Rightarrow> if vs = [] then None else Some (OutputValidationFailed vs))))"

subsection \<open>Inputs from the brief, and the prompt\<close>

text \<open>
  \<^verbatim>\<open>toLowerCase\<close>, character by character: the letters A to Z, and the capital letters
  U+00C0 to U+00DE (the multiplication sign U+00D7 apart); and \<^verbatim>\<open>String.includes\<close>.
\<close>

definition capitals :: string where
  "capitals = ''ABCDEFGHIJKLMNOPQRSTUVWXYZ'' @
     [CHR 0xC0, CHR 0xC1, CHR 0xC2, CHR 0xC3, CHR 0xC4, CHR 0xC5, CHR 0xC6, CHR 0xC7, CHR 0xC8,
      CHR 0xC9, CHR 0xCA, CHR 0xCB, CHR 0xCC, CHR 0xCD, CHR 0xCE, CHR 0xCF, CHR 0xD0, CHR 0xD1,
      CHR 0xD2, CHR 0xD3, CHR 0xD4, CHR 0xD5, CHR 0xD6, CHR 0xD8, CHR 0xD9, CHR 0xDA, CHR 0xDB,
      CHR 0xDC, CHR 0xDD, CHR 0xDE]"

definition smalls :: string where
  "smalls = ''abcdefghijklmnopqrstuvwxyz'' @
     [CHR 0xE0, CHR 0xE1, CHR 0xE2, CHR 0xE3, CHR 0xE4, CHR 0xE5, CHR 0xE6, CHR 0xE7, CHR 0xE8,
      CHR 0xE9, CHR 0xEA, CHR 0xEB, CHR 0xEC, CHR 0xED, CHR 0xEE, CHR 0xEF, CHR 0xF0, CHR 0xF1,
      CHR 0xF2, CHR 0xF3, CHR 0xF4, CHR 0xF5, CHR 0xF6, CHR 0xF8, CHR 0xF9, CHR 0xFA, CHR 0xFB,
      CHR 0xFC, CHR 0xFD, CHR 0xFE]"

definition lower :: "char \<Rightarrow> char" where
  "lower c = (case map_of (zip capitals smalls) c of None \<Rightarrow> c | Some d \<Rightarrow> d)"

fun str_includes :: "string \<Rightarrow> string \<Rightarrow> bool" where
  "str_includes [] needle = (needle = [])"
| "str_includes (c # cs) needle =
     (take (length needle) (c # cs) = needle \<or> str_includes cs needle)"

text \<open>
  \<^verbatim>\<open>x && x.toLowerCase().includes(needle)\<close> as a condition: false on a falsy \<open>x\<close>, a
  \<^verbatim>\<open>TypeError\<close> on a truthy value that is not a string.
\<close>

fun mentions :: "jv \<Rightarrow> string \<Rightarrow> error + bool" where
  "mentions (JStr t) needle = Inr (t \<noteq> [] \<and> str_includes (map lower t) needle)"
| "mentions v needle =
     (if truthy v then Inl (TypeError ''toLowerCase is not a function'') else Inr False)"

definition copy_if_truthy :: "obj \<Rightarrow> string \<Rightarrow> obj \<Rightarrow> obj" where
  "copy_if_truthy b k ins = (if truthy (lookup b k) then set_prop k (lookup b k) ins else ins)"

definition topic_of :: "obj \<Rightarrow> error + obj" where
  "topic_of b =
     (case mentions (lookup b ''title'') ''water bottle'' of
        Inl e \<Rightarrow> Inl e
      | Inr True \<Rightarrow> Inr [(''topic'', JStr ''eco-friendly water bottles'')]
      | Inr False \<Rightarrow>
          (case mentions (lookup b ''overview'') ''water bottle'' of
             Inl e \<Rightarrow> Inl e
           | Inr True \<Rightarrow> Inr [(''topic'', JStr ''eco-friendly water bottles'')]
           | Inr False \<Rightarrow>
               (case mentions (lookup b ''background'') ''water bottle'' of
                  Inl e \<Rightarrow> Inl e
                | Inr True \<Rightarrow> Inr [(''topic'', JStr ''eco-friendly water bottles'')]
                | Inr False \<Rightarrow> Inr [])))"

definition extractInputsFromBrief :: "obj \<Rightarrow> error + obj" where
  "extractInputsFromBrief b =
     (case topic_of b of
        Inl e \<Rightarrow> Inl e
      | Inr i1 \<Rightarrow>
          (let i2 = copy_if_truthy b ''targetAudience'' i1
           in case mentions (lookup b ''deliverables'') ''social media'' of
                Inl e \<Rightarrow> Inl e
              | Inr sm \<Rightarrow>
                  (let i3 = (if sm then set_prop ''contentType'' (JStr ''social media posts'') i2 else i2);
                       i4 = copy_if_truthy b ''preferences'' i3;
                       i5 = copy_if_truthy b ''dates'' i4;
                       i6 = copy_if_truthy b ''budget'' i5
                   in Inr (copy_if_truthy b ''transportation'' i6))))"

definition section_if :: "string \<Rightarrow> jv \<Rightarrow> prompt" where
  "section_if heading v = (if truthy v then [(heading, [v])] else [])"

definition formatBriefAsPrompt :: "obj \<Rightarrow> obj \<Rightarrow> prompt" where
  "formatBriefAsPrompt b ins =
     [(''JOB BRIEF'', [lookup b ''title'']),
      (''Overview'', [lookup b ''overview'']),
      (''Background'', [js_or (lookup b ''background'') (JStr ''Not provided'')]),
      (''Objective'', [lookup b ''objective'']),
      (''Target Audience'', [js_or (lookup b ''targetAudience'') (JStr ''Not specified'')])]
     @ section_if ''Preferences'' (js_or (lookup b ''preferences'') (lookup ins ''preferences''))
     @ section_if ''Dates'' (js_or (lookup b ''dates'') (lookup ins ''dates''))
     @ section_if ''Budget'' (js_or (lookup b ''budget'') (lookup ins ''budget''))
     @ section_if ''Transportation'' (js_or (lookup b ''transportation'') (lookup ins ''transportation''))
     @ section_if ''Deliverables'' (lookup b ''deliverables'')
     @ section_if ''Additional Information'' (lookup b ''additionalInfo'')
     @ (if truthy (lookup ins ''workflowId'')
        then [(''Workflow Context'', [lookup ins ''workflowStep'', lookup ins ''workflowId''])]
             @ section_if ''Previous Step Results'' (lookup ins ''previousStepData'')
        else [])"

subsection \<open>Executing a job\<close>

text \<open>
  \<^verbatim>\<open>execute\<close> works on the job object it read from \<^verbatim>\<open>activeJobs\<close> when it was
  called. \<open>put_job att\<close> writes the object back under its id; \<open>att\<close> says that
  \<^verbatim>\<open>activeJobs\<close> still holds this very object. It always does within one call of
  \<^verbatim>\<open>execute\<close> that runs alone; in a parallel step a later branch with the same job id
  replaces the object, and what an earlier branch then writes to its own object is not
  seen under that id any more.
\<close>

definition put_job :: "bool \<Rightarrow> string \<Rightarrow> job \<Rightarrow> agency \<Rightarrow> agency" where
  "put_job att jid j s = (if att then s\<lparr>activeJobs := (activeJobs s)(jid \<mapsto> j)\<rparr> else s)"

text \<open>\<^verbatim>\<open>job.status = st\<close>, with the write recorded in \<open>statusLog\<close>.\<close>

definition write_status :: "bool \<Rightarrow> string \<Rightarrow> status \<Rightarrow> job \<Rightarrow> agency \<Rightarrow> job \<times> agency" where
  "write_status att jid st j s =
     (j\<lparr>status := st\<rparr>,
      (put_job att jid (j\<lparr>status := st\<rparr>) s)\<lparr>statusLog := statusLog s @ [(jid, Some (status j), st)]\<rparr>)"

text \<open>
  The \<^verbatim>\<open>catch\<close> block of \<^verbatim>\<open>execute\<close>. A handler that returns gives the call's
  result; a handler that throws is logged and the original error is thrown.
\<close>

definition catch_job :: "bool \<Rightarrow> agency \<Rightarrow> string \<Rightarrow> job \<Rightarrow> error \<Rightarrow> (error + jv) \<times> agency" where
  "catch_job att s jid j e =
     (let js1 = write_status att jid failed j s;
          j2 = (fst js1)\<lparr>error := Some e\<rparr>;
          s2 = emit (JobFailed jid e) (put_job att jid j2 (snd js1))
      in case errorHandlers s2 jid of
           None \<Rightarrow> (Inl e, s2)
         | Some h \<Rightarrow> (case h e j2 of Inr v \<Rightarrow> (Inr v, s2) | Inl he \<Rightarrow> (Inl e, s2)))"

text \<open>
  \<^verbatim>\<open>{...briefInputs, ...jobContext, ...additionalInputs}\<close>, or the error of
  \<^verbatim>\<open>extractInputsFromBrief\<close>.
\<close>

definition mergedInputs :: "agency \<Rightarrow> string \<Rightarrow> job \<Rightarrow> obj \<Rightarrow> error + obj" where
  "mergedInputs s jid j additionalInputs =
     (case extractInputsFromBrief (jbrief j) of
        Inl e \<Rightarrow> Inl e
      | Inr briefInputs \<Rightarrow>
          (let jobContext = (case jobContexts s jid of None \<Rightarrow> [] | Some c \<Rightarrow> c)
           in Inr (spread (spread briefInputs jobContext) additionalInputs)))"

definition assignee_of :: "agency \<Rightarrow> job \<Rightarrow> runnable option" where
  "assignee_of s j =
     (if assigneeType j = One ''agent'' then agents s (assigneeId j) else team s (assigneeId j))"

text \<open>What \<^verbatim>\<open>run\<close> is called with, for an agent and for a team.\<close>

definition run_input_of :: "agency \<Rightarrow> string \<Rightarrow> job \<Rightarrow> obj \<Rightarrow> run_input" where
  "run_input_of s jid j m =
     (let jobContext = (case jobContexts s jid of None \<Rightarrow> [] | Some c \<Rightarrow> c)
      in if assigneeType j = One ''agent''
         then AgentPrompt (formatBriefAsPrompt (jbrief j) m)
                [(''jobId'', JStr jid), (''jobContext'', JObj jobContext)]
         else TeamInputs m
                [(''brief'', JObj (jbrief j)), (''jobId'', JStr jid), (''jobContext'', JObj jobContext)])"

text \<open>
  The part of \<^verbatim>\<open>execute\<close> that runs before it waits for \<^verbatim>\<open>run\<close>: either the call
  is over (an error before the run went through the \<^verbatim>\<open>catch\<close> block), or \<^verbatim>\<open>run\<close> has
  been called and the job waits for its outcome.
\<close>

datatype started = Settled "error + jv" | Waiting job "error + jv"

definition begin_job :: "agency \<Rightarrow> string \<Rightarrow> job \<Rightarrow> obj \<Rightarrow> started \<times> agency" where
  "begin_job s jid j additionalInputs =
     (let js1 = write_status True jid in_progress j s;
          j2 = (fst js1)\<lparr>startedAt := Some (clock s)\<rparr>;
          s2 = emit (JobStarted jid) (put_job True jid j2 (snd js1))
      in case mergedInputs s2 jid j2 additionalInputs of
           Inl e \<Rightarrow> (let r = catch_job True s2 jid j2 e in (Settled (fst r), snd r))
         | Inr m \<Rightarrow>
             (case check_input s2 jid m of
                Some e \<Rightarrow> (let r = catch_job True s2 jid j2 e in (Settled (fst r), snd r))
              | None \<Rightarrow>
                  (case assignee_of s2 j2 of
                     None \<Rightarrow>
                       (let r = catch_job True s2 jid j2
                                  (TypeError ''Cannot read properties of undefined'')
                        in (Settled (fst r), snd r))
                   | Some a \<Rightarrow>
                       (let inp = run_input_of s2 jid j2 m
                        in (Waiting j2 (a inp),
                            s2\<lparr>runLog := runLog s2 @ [(jid, m, inp)]\<rparr>)))))"

text \<open>The part of \<^verbatim>\<open>execute\<close> that runs once \<^verbatim>\<open>run\<close> has resolved or rejected.\<close>

definition finish_job :: "bool \<Rightarrow> agency \<Rightarrow> string \<Rightarrow> job \<Rightarrow> error + jv \<Rightarrow> (error + jv) \<times> agency" where
  "finish_job att s jid j outcome =
     (case outcome of
        Inl e \<Rightarrow> catch_job att s jid j e
      | Inr res \<Rightarrow>
          (case check_output s jid res of
             Some e \<Rightarrow> catch_job att s jid j e
           | None \<Rightarrow>
               (let js1 = write_status att jid completed j s;
                    j2 = (fst js1)\<lparr>completedAt := Some (clock s), results := res\<rparr>;
                    s2 = put_job att jid j2 (snd js1)
                in case updateJobContext s2 jid [(''results'', res)] of
                     Inl e \<Rightarrow> catch_job att s2 jid j2 e
                   | Inr s3 \<Rightarrow> (Inr res, emit (JobCompleted jid res) s3))))"

text \<open>
  \<^verbatim>\<open>execute(jobId, additionalInputs)\<close> up to the point where it waits for \<^verbatim>\<open>run\<close>,
  and the whole call when nothing else runs in between.
\<close>

definition execute_start :: "agency \<Rightarrow> string \<Rightarrow> obj \<Rightarrow> started \<times> agency" where
  "execute_start s jid additionalInputs =
     (case activeJobs s jid of
        None \<Rightarrow> (Settled (Inl (NoActiveJob jid)), s)
      | Some j \<Rightarrow> begin_job s jid j additionalInputs)"

definition execute :: "agency \<Rightarrow> string \<Rightarrow> obj \<Rightarrow> (error + jv) \<times> agency" where
  "execute s jid additionalInputs =
     (case execute_start s jid additionalInputs of
        (Settled r, s1) \<Rightarrow> (r, s1)
      | (Waiting j1 outcome, s1) \<Rightarrow> finish_job True s1 jid j1 outcome)"

text \<open>\<^verbatim>\<open>retryJob(jobId, maxRetries = 3, additionalInputs = {})\<close>.\<close>

definition retryJob :: "agency \<Rightarrow> string \<Rightarrow> int \<Rightarrow> obj \<Rightarrow> (error + jv) \<times> agency" where
  "retryJob s jid maxRetries additionalInputs =
     (case activeJobs s jid of
        None \<Rightarrow> (Inl (NoJobFound jid), s)
      | Some j \<Rightarrow>
          if status j \<noteq> failed then (Inl (NotInFailedState jid), s)
          else
            (let c = (case retryCount j of None \<Rightarrow> 0 | Some n \<Rightarrow> n);
                 j1 = j\<lparr>retryCount := Some c\<rparr>;
                 s1 = put_job True jid j1 s
             in if int c \<ge> maxRetries then (Inl (MaxRetriesReached maxRetries jid), s1)
                else
                  (let j2 = j1\<lparr>retryCount := Some (c + 1)\<rparr>;
                       js3 = write_status True jid assigned j2 (put_job True jid j2 s1);
                       j4 = (fst js3)\<lparr>error := None\<rparr>;
                       s4 = emit (JobRetrying jid (c + 1) maxRetries) (put_job True jid j4 (snd js3))
                   in execute s4 jid additionalInputs)))"

text \<open>The key under which \<^verbatim>\<open>cleanupJob\<close> archives results: \<^verbatim>\<open>`job_${jobId}_results`\<close>.\<close>

definition archive_key :: "string \<Rightarrow> string" where
  "archive_key jid = ''job_'' @ jid @ ''_results''"

text \<open>\<^verbatim>\<open>cleanupJob(jobId, keepResults = true)\<close>.\<close>

definition cleanupJob :: "agency \<Rightarrow> string \<Rightarrow> bool \<Rightarrow> bool \<times> agency" where
  "cleanupJob s jid keepResults =
     (case activeJobs s jid of
        None \<Rightarrow> (False, s)
      | Some j \<Rightarrow>
          if status j \<noteq> completed \<and> status j \<noteq> failed then (False, s)
          else
            (let res = (if keepResults then results j else JNull);
                 s1 = s\<lparr>jobContexts := (jobContexts s)(jid := None)\<rparr>;
                 s2 = s1\<lparr>activeJobs := (activeJobs s1)(jid := None)\<rparr>;
                 s3 = emit (JobCleaned jid keepResults) s2
             in (True,
                 if keepResults \<and> truthy res
                 then s3\<lparr>globalMemory := snd (remember (globalMemory s3)
                            (archive_key jid)
                            (JObj [(''results'', res), (''cleanedAt'', JDate (clock s))]))\<rparr>
                 else s3)))"

subsection \<open>Workflows\<close>

text \<open>
  \<^verbatim>\<open>executeWorkflow\<close> installs the workflow record and creates the workflow's memory
  scope before the first step, and nothing it calls removes either; the two helpers below
  update them where they are.
\<close>

definition scope_name :: "string \<Rightarrow> string" where
  "scope_name w = ''workflow:'' @ w"

definition upd_workflow :: "string \<Rightarrow> (workflow \<Rightarrow> workflow) \<Rightarrow> agency \<Rightarrow> agency" where
  "upd_workflow w f s =
     (case workflows s w of None \<Rightarrow> s | Some r \<Rightarrow> s\<lparr>workflows := (workflows s)(w \<mapsto> f r)\<rparr>)"

definition remember_in :: "string \<Rightarrow> string \<Rightarrow> jv \<Rightarrow> agency \<Rightarrow> agency" where
  "remember_in scopeId k v s =
     (case scope_of s scopeId of
        None \<Rightarrow> s
      | Some m \<Rightarrow> put_scope scopeId (snd (remember m k v)) s)"

text \<open>The properties that \<^verbatim>\<open>...x\<close> contributes: those of an object, the indices of an array.\<close>

fun spread_of :: "obj oom \<Rightarrow> obj" where
  "spread_of Absent = []"
| "spread_of (One ps) = ps"
| "spread_of (Many pss) = zip (map show_nat [0..<length pss]) (map JObj pss)"

fun spread_opt :: "obj option \<Rightarrow> obj" where
  "spread_opt None = []"
| "spread_opt (Some ps) = ps"

definition step_file :: "nat \<Rightarrow> string \<Rightarrow> string" where
  "step_file i suffix = ''step_'' @ show_nat i @ suffix"

text \<open>\<^verbatim>\<open>if (!this.brief[jobId]) this.createBrief(jobId, data)\<close>, at the head of every step.\<close>

definition ensure_brief :: "agency \<Rightarrow> string \<Rightarrow> obj \<Rightarrow> agency" where
  "ensure_brief s jid briefData =
     (case brief s jid of None \<Rightarrow> createBrief s jid briefData | Some b \<Rightarrow> s)"

text \<open>
  The properties a step adds to the brief it creates and, after \<^verbatim>\<open>previousStepData\<close>,
  to the inputs it passes on.
\<close>

definition step_tags :: "step_kind \<Rightarrow> string \<Rightarrow> nat \<Rightarrow> obj" where
  "step_tags kind w i =
     [(''workflowId'', JStr w), (''workflowStep'', JNum (int i))]
     @ (if kind = ConditionalStep then [(''isConditional'', JBool True)] else [])"

definition parallel_tags :: "string \<Rightarrow> nat \<Rightarrow> nat \<Rightarrow> obj" where
  "parallel_tags w i index =
     [(''workflowId'', JStr w), (''workflowStep'', JNum (int i)),
      (''isParallel'', JBool True), (''parallelIndex'', JNum (int index))]"

text \<open>
  What a sequential or conditional step does once \<^verbatim>\<open>execute\<close> has returned \<open>r\<close>: the
  result goes to the workflow's memory and to its results, and a job left in status
  \<^verbatim>\<open>failed\<close> aborts the workflow.
\<close>

definition record_result :: "step_kind \<Rightarrow> agency \<Rightarrow> string \<Rightarrow> nat \<Rightarrow> string \<Rightarrow> jv \<Rightarrow> (error + jv) \<times> agency" where
  "record_result kind s w i jid r =
     (let s4 = remember_in (scope_name w) (step_file i ''_results'') r s;
          s5 = upd_workflow w (\<lambda>rec. rec\<lparr>wresults := set_prop jid r (wresults rec)\<rparr>) s4
      in case activeJobs s5 jid of
           None \<Rightarrow> (Inl (TypeError ''Cannot read properties of undefined''), s5)
         | Some j' \<Rightarrow>
             if status j' = failed
             then (Inl (StepFailed kind i jid (error j')), s5)
             else (Inr r, s5))"

text \<open>\<^verbatim>\<open>{...inputs, previousStepData: currentData, workflowId, workflowStep: i}\<close>.\<close>

definition step_inputs :: "step_kind \<Rightarrow> step \<Rightarrow> string \<Rightarrow> nat \<Rightarrow> jv \<Rightarrow> obj" where
  "step_inputs kind st w i currentData =
     spread (spread_of (inputs st)) ((''previousStepData'', currentData) # step_tags kind w i)"

text \<open>
  A sequential step, and a conditional step whose condition holds: the two branches of
  the source differ in the \<^verbatim>\<open>isConditional\<close> tag and in the error message only.
\<close>

definition single_step :: "step_kind \<Rightarrow> agency \<Rightarrow> string \<Rightarrow> nat \<Rightarrow> step \<Rightarrow> jv \<Rightarrow> (error + jv) \<times> agency" where
  "single_step kind s w i st currentData =
     (let jid = as_key (sjobId st);
          s1 = ensure_brief s jid (spread (spread_of (sbrief st)) (step_tags kind w i))
      in case assignJob s1 jid (as_key (sassigneeId st)) (sassigneeType st) of
           (Inl e, s2) \<Rightarrow> (Inl e, s2)
         | (Inr j, s2) \<Rightarrow>
             (case execute s2 jid (step_inputs kind st w i currentData) of
                (Inl e, s3) \<Rightarrow> (Inl e, s3)
              | (Inr r, s3) \<Rightarrow> record_result kind s3 w i jid r))"

text \<open>
  A parallel step. The \<^verbatim>\<open>map\<close> over the job ids starts every branch: brief, assignment,
  and \<^verbatim>\<open>execute\<close> up to its wait for \<^verbatim>\<open>run\<close>. An exception of \<^verbatim>\<open>assignJob\<close> leaves
  the \<^verbatim>\<open>map\<close> at once, with the branches started so far still running.
\<close>

fun type_arg :: "string option \<Rightarrow> string oom" where
  "type_arg None = Absent"
| "type_arg (Some t) = One t"

fun start_branches ::
  "agency \<Rightarrow> string \<Rightarrow> nat \<Rightarrow> step \<Rightarrow> jv \<Rightarrow> nat \<Rightarrow> string list \<Rightarrow> (nat \<times> string \<times> started) list
     \<Rightarrow> error option \<times> (nat \<times> string \<times> started) list \<times> agency" where
  "start_branches s w i st currentData index [] acc = (None, acc, s)"
| "start_branches s w i st currentData index (jid # jids) acc =
     (let s1 = ensure_brief s jid
                 (spread (spread_opt (pick (sbrief st) index)) (parallel_tags w i index))
      in case assignJob s1 jid (opt_key (pick (sassigneeId st) index))
                (type_arg (pick (sassigneeType st) index)) of
           (Inl e, s2) \<Rightarrow> (Some e, acc, s2)
         | (Inr j, s2) \<Rightarrow>
             (let jobInputs = spread (spread_opt (pick (inputs st) index))
                                ((''previousStepData'', currentData) # parallel_tags w i index);
                  b = execute_start s2 jid jobInputs
              in start_branches (snd b) w i st currentData (index + 1) jids
                   (acc @ [(index, jid, fst b)])))"

text \<open>
  A branch in flight: its index, its job id, whether \<^verbatim>\<open>activeJobs\<close> still holds its job
  object (no later branch was started under the same id), and how far it got.
\<close>

type_synonym branch = "nat \<times> string \<times> bool \<times> started"

fun mark_attached :: "(nat \<times> string \<times> started) list \<Rightarrow> branch list" where
  "mark_attached [] = []"
| "mark_attached ((index, jid, b) # rest) =
     (index, jid, jid \<notin> set (map (\<lambda>x. fst (snd x)) rest), b) # mark_attached rest"

text \<open>A branch settles: the rest of its \<^verbatim>\<open>execute\<close> runs, or it was over already.\<close>

fun settle_branch :: "agency \<Rightarrow> branch \<Rightarrow> (error + jv) \<times> agency" where
  "settle_branch s (index, jid, att, Settled r) = (r, s)"
| "settle_branch s (index, jid, att, Waiting j outcome) = finish_job att s jid j outcome"

text \<open>
  \<^verbatim>\<open>await Promise.all(parallelJobs)\<close>: the branches settle one after the other in some
  order; the first rejection is thrown at once and the branches that have not settled yet
  stay in flight. The order is a parameter: any list of indices, completed by the indices
  it leaves out.
\<close>

fun settle_all ::
  "agency \<Rightarrow> branch list \<Rightarrow> (nat \<times> jv) list \<Rightarrow> (error + (nat \<times> jv) list) \<times> agency \<times> branch list" where
  "settle_all s [] acc = (Inr acc, s, [])"
| "settle_all s (b # bs) acc =
     (case settle_branch s b of
        (Inl e, s1) \<Rightarrow> (Inl e, s1, bs)
      | (Inr v, s1) \<Rightarrow> settle_all s1 bs (acc @ [(fst b, v)]))"

definition schedule :: "nat list \<Rightarrow> nat \<Rightarrow> nat list" where
  "schedule order n = remdups (filter (\<lambda>i. i < n) order) @ filter (\<lambda>i. i \<notin> set order) [0..<n]"

text \<open>The loop over \<^verbatim>\<open>parallelResults\<close> after the join.\<close>

fun store_results :: "agency \<Rightarrow> string \<Rightarrow> nat \<Rightarrow> (string \<times> jv) list \<Rightarrow> obj \<Rightarrow> (error + obj) \<times> agency" where
  "store_results s w i [] combined = (Inr combined, s)"
| "store_results s w i (p # ps) combined =
     (let jid = fst p; r = snd p;
          s1 = remember_in (scope_name w) (step_file i (''_job_'' @ jid @ ''_results'')) r s;
          s2 = upd_workflow w (\<lambda>rec. rec\<lparr>wresults := set_prop jid r (wresults rec)\<rparr>) s1
      in case activeJobs s2 jid of
           None \<Rightarrow> (Inl (TypeError ''Cannot read properties of undefined''), s2)
         | Some j \<Rightarrow>
             if status j = failed
             then (Inl (StepFailed ParallelStep i jid (error j)), s2)
             else store_results s2 w i ps (set_prop jid r combined))"

definition parallel_step ::
  "nat list \<Rightarrow> agency \<Rightarrow> string \<Rightarrow> nat \<Rightarrow> step \<Rightarrow> string list \<Rightarrow> jv \<Rightarrow> (error + jv) \<times> agency \<times> branch list" where
  "parallel_step order s w i st jids currentData =
     (case start_branches s w i st currentData 0 jids [] of
        (Some e, bs, s1) \<Rightarrow> (Inl e, s1, mark_attached bs)
      | (None, bs, s1) \<Rightarrow>
          (let marked = mark_attached bs;
               arranged = map (\<lambda>p. marked ! p) (schedule order (length marked))
           in case settle_all s1 arranged [] of
                (Inl e, s2, rest) \<Rightarrow> (Inl e, s2, rest)
              | (Inr vals, s2, rest) \<Rightarrow>
                  (case store_results s2 w i
                          (map (\<lambda>b. (fst (snd b), case map_of vals (fst b) of None \<Rightarrow> JUndef | Some v \<Rightarrow> v))
                             marked) [] of
                     (Inl e, s3) \<Rightarrow> (Inl e, s3, [])
                   | (Inr combined, s3) \<Rightarrow>
                       (Inr (JObj combined),
                        remember_in (scope_name w) (step_file i ''_results'') (JObj combined) s3,
                        []))))"

text \<open>One step of the loop of \<^verbatim>\<open>executeWorkflow\<close>, after \<^verbatim>\<open>currentStep\<close> is set.\<close>

definition do_step ::
  "nat list \<Rightarrow> agency \<Rightarrow> string \<Rightarrow> nat \<Rightarrow> step \<Rightarrow> jv \<Rightarrow> (error + jv) \<times> agency \<times> branch list" where
  "do_step order s w i st currentData =
     (let ty = (case stype st of None \<Rightarrow> ''sequential'' | Some t \<Rightarrow> t)
      in case (ty = ''parallel'', sjobId st) of
           (True, Many jids) \<Rightarrow> parallel_step order s w i st jids currentData
         | _ \<Rightarrow>
             if ty = ''conditional'' then
               (if (case condition st of
                      None \<Rightarrow> True
                    | Some f \<Rightarrow> f currentData
                        (case scope_of s (scope_name w) of None \<Rightarrow> new_memory | Some m \<Rightarrow> m))
                then (let r = single_step ConditionalStep s w i st currentData in (fst r, snd r, []))
                else (Inr currentData,
                      emit (WorkflowStepSkipped w i)
                        (remember_in (scope_name w) (step_file i ''_skipped'') (JBool True) s),
                      []))
             else (let r = single_step SequentialStep s w i st currentData in (fst r, snd r, [])))"

fun run_steps ::
  "(nat \<Rightarrow> nat list) \<Rightarrow> agency \<Rightarrow> string \<Rightarrow> nat \<Rightarrow> step list \<Rightarrow> jv \<Rightarrow> (error + jv) \<times> agency \<times> branch list" where
  "run_steps order s w i [] currentData = (Inr currentData, s, [])"
| "run_steps order s w i (st # sts) currentData =
     (let s1 = emit (WorkflowStep w i (sjobId st) (sassigneeId st) (sassigneeType st)
                       (case stype st of None \<Rightarrow> ''sequential'' | Some t \<Rightarrow> t))
                 (upd_workflow w (\<lambda>rec. rec\<lparr>currentStep := i\<rparr>) s)
      in case do_step (order i) s1 w i st currentData of
           (Inl e, s2, fl) \<Rightarrow> (Inl e, s2, fl)
         | (Inr d, s2, fl) \<Rightarrow> run_steps order s2 w (i + 1) sts d)"

text \<open>The \<^verbatim>\<open>catch\<close> block of \<^verbatim>\<open>executeWorkflow\<close>.\<close>

definition fail_workflow :: "agency \<Rightarrow> string \<Rightarrow> error \<Rightarrow> (error + wf_result) \<times> agency" where
  "fail_workflow s w e =
     (case workflows s w of
        None \<Rightarrow> (Inl (TypeError ''Cannot set properties of undefined''), s)
      | Some rec \<Rightarrow>
          (let rec' = rec\<lparr>wstatus := wf_failed, werror := Some e\<rparr>;
               s1 = emit (WorkflowFailed w e (currentStep rec'))
                      (s\<lparr>workflows := (workflows s)(w \<mapsto> rec')\<rparr>);
               plain = WfFailed w e (currentStep rec') (wresults rec')
           in case workflowErrorHandlers s1 w of
                None \<Rightarrow> (Inr plain, s1)
              | Some h \<Rightarrow>
                  (case h e rec' of
                     Inr v \<Rightarrow> (Inr (WfHandled v), s1)
                   | Inl he \<Rightarrow> (Inr plain, s1))))"

definition complete_workflow :: "agency \<Rightarrow> string \<Rightarrow> (error + wf_result) \<times> agency" where
  "complete_workflow s w =
     (case workflows s w of
        None \<Rightarrow> fail_workflow s w (TypeError ''Cannot set properties of undefined'')
      | Some rec \<Rightarrow>
          (let rec' = rec\<lparr>wstatus := wf_completed, wcompletedAt := Some (clock s)\<rparr>
           in (Inr (WfCompleted w (wresults rec')),
               emit (WorkflowCompleted w (wresults rec'))
                 (s\<lparr>workflows := (workflows s)(w \<mapsto> rec')\<rparr>))))"

text \<open>
  What \<^verbatim>\<open>executeWorkflow\<close> does before its \<^verbatim>\<open>try\<close>: the workflow record, the
  \<^verbatim>\<open>workflow:started\<close> event, the workflow's memory scope and the initial data in it.
  An exception of \<^verbatim>\<open>createMemoryScope\<close> leaves the call here.
\<close>

definition workflow_setup :: "agency \<Rightarrow> step list \<Rightarrow> string \<Rightarrow> obj \<Rightarrow> error option \<times> agency" where
  "workflow_setup s workflowDefinition w initialData =
     (let rec = \<lparr>wid = w, wdefinition = workflowDefinition, wstatus = wf_in_progress,
                 wstartedAt = clock s, currentStep = 0, wresults = [], werror = None,
                 wcompletedAt = None\<rparr>;
          s1 = emit (WorkflowStarted w (length workflowDefinition))
                 (s\<lparr>workflows := (workflows s)(w \<mapsto> rec)\<rparr>)
      in case createMemoryScope s1 (scope_name w) of
           Inl e \<Rightarrow> (Some e, s1)
         | Inr s2 \<Rightarrow>
             (None, fold (\<lambda>p. remember_in (scope_name w) (fst p) (snd p)) initialData s2))"

text \<open>
  \<^verbatim>\<open>executeWorkflow(workflowDefinition, workflowId, initialData = {})\<close>. \<open>order\<close> gives,
  for each step index, the order in which the branches of a parallel step settle. The
  third component of the result lists the branches of a parallel step that are still in
  flight when the call returns.
\<close>

definition executeWorkflow ::
  "(nat \<Rightarrow> nat list) \<Rightarrow> agency \<Rightarrow> step list \<Rightarrow> string \<Rightarrow> obj \<Rightarrow> (error + wf_result) \<times> agency \<times> branch list" where
  "executeWorkflow order s workflowDefinition w initialData =
     (case workflow_setup s workflowDefinition w initialData of
        (Some e, s1) \<Rightarrow> (Inl e, s1, [])
      | (None, s3) \<Rightarrow>
          (case run_steps order s3 w 0 workflowDefinition (JObj initialData) of
             (Inr d, s4, fl) \<Rightarrow> (let r = complete_workflow s4 w in (fst r, snd r, fl))
           | (Inl e, s4, fl) \<Rightarrow> (let r = fail_workflow s4 w e in (fst r, snd r, fl))))"

text \<open>The branches left in flight settle after the call has returned.\<close>

fun settle_later :: "agency \<Rightarrow> branch list \<Rightarrow> agency" where
  "settle_later s [] = s"
| "settle_later s (b # bs) = settle_later (snd (settle_branch s b)) bs"

subsection \<open>Planning\<close>

text \<open>
  \<^verbatim>\<open>String(x)\<close>, as a template string renders a value. Dates, which no parsed reply
  contains, are rendered by their clock reading.
\<close>

fun to_string :: "jv \<Rightarrow> string" where
  "to_string JUndef = ''undefined''"
| "to_string JNull = ''null''"
| "to_string (JBool b) = (if b then ''true'' else ''false'')"
| "to_string (JNum n) = (if n < 0 then ''-'' @ show_nat (nat (- n)) else show_nat (nat n))"
| "to_string (JStr t) = t"
| "to_string (JDate t) = show_nat t"
| "to_string (JArr xs) =
     join_with '','' (map (\<lambda>x. if x = JUndef \<or> x = JNull then [] else to_string x) xs)"
| "to_string (JObj ps) = ''[object Object]''"

text \<open>
  \<^verbatim>\<open>responseText.match(/\[\s*\{.*\}\s*\]/s)\<close>: the leftmost \<^verbatim>\<open>[\<close> that is followed,
  after white space, by \<^verbatim>\<open>{\<close>, up to the last \<^verbatim>\<open>}\<close> that is followed, after white
  space, by \<^verbatim>\<open>]\<close>. With the flag \<^verbatim>\<open>s\<close> the dot matches every character. Of the
  characters of a string here, \<^verbatim>\<open>\s\<close> accepts the tab, the line feed, the vertical tab,
  the form feed, the carriage return, the space and the no-break space U+00A0.
\<close>

definition is_space :: "char \<Rightarrow> bool" where
  "is_space c = (c \<in> set [CHR '' '', CHR 0x09, CHR 0x0A, CHR 0x0B, CHR 0x0C, CHR 0x0D, CHR 0xA0])"

text \<open>Does the string start with \<^verbatim>\<open>}\<close>, white space, \<^verbatim>\<open>]\<close>, and how long is that.\<close>

definition closes :: "string \<Rightarrow> nat option" where
  "closes t =
     (case t of
        [] \<Rightarrow> None
      | c # r \<Rightarrow>
          if c = CHR ''}'' then
            (case dropWhile is_space r of
               [] \<Rightarrow> None
             | d # u \<Rightarrow> if d = CHR '']'' then Some (length (takeWhile is_space r) + 2) else None)
          else None)"

text \<open>Where the last such closing ends.\<close>

fun last_close :: "string \<Rightarrow> nat option" where
  "last_close [] = None"
| "last_close (c # cs) =
     (case last_close cs of
        Some e \<Rightarrow> Some (e + 1)
      | None \<Rightarrow> closes (c # cs))"

fun match_array :: "string \<Rightarrow> string option" where
  "match_array [] = None"
| "match_array (c # cs) =
     (if c = CHR ''['' then
        (case dropWhile is_space cs of
           [] \<Rightarrow> match_array cs
         | d # rest \<Rightarrow>
             if d = CHR ''{'' then
               (case last_close rest of
                  Some e \<Rightarrow> Some (c # take (length (takeWhile is_space cs) + 1 + e) cs)
                | None \<Rightarrow> match_array cs)
             else match_array cs)
      else match_array cs)"

text \<open>
  The properties that the planner reads off a reply and off a task are named \<^verbatim>\<open>text\<close>,
  \<^verbatim>\<open>output\<close>, \<^verbatim>\<open>name\<close>, \<^verbatim>\<open>description\<close>, \<^verbatim>\<open>inputs\<close> and \<^verbatim>\<open>outputs\<close>. No
  built-in prototype has a member of one of these names, so that such a read gives the own
  property or \<^verbatim>\<open>undefined\<close>.
\<close>

definition planner_names :: "string list" where
  "planner_names = [''text'', ''output'', ''name'', ''description'', ''inputs'', ''outputs'']"

definition plain_field :: "jv \<Rightarrow> string \<Rightarrow> error + jv" where
  "plain_field d k =
     (if d = JUndef then Inl (TypeError ''Cannot read properties of undefined'')
      else if d = JNull then Inl (TypeError ''Cannot read properties of null'')
      else Inr (case own_field d k of Some v \<Rightarrow> v | None \<Rightarrow> JUndef))"

text \<open>\<^verbatim>\<open>planResponse.text || planResponse.output || planResponse\<close>.\<close>

definition response_text :: "jv \<Rightarrow> error + jv" where
  "response_text r =
     (case plain_field r ''text'' of
        Inl e \<Rightarrow> Inl e
      | Inr t \<Rightarrow>
          if truthy t then Inr t
          else (case plain_field r ''output'' of
                  Inl e \<Rightarrow> Inl e
                | Inr out \<Rightarrow> Inr (js_or out r)))"

text \<open>
  The two parsing tiers, shared by the planner and the re-planner: the inner
  \<^verbatim>\<open>try\<close> with its \<^verbatim>\<open>catch (directParseErr)\<close>. \<open>parse\<close> is \<^verbatim>\<open>JSON.parse\<close>, a
  built-in taken as a parameter: it returns the parsed value or throws.
\<close>

definition parse_reply :: "(jv \<Rightarrow> error + jv) \<Rightarrow> jv \<Rightarrow> error + jv" where
  "parse_reply parse responseText =
     (case parse responseText of
        Inr v \<Rightarrow> Inr v
      | Inl directParseErr \<Rightarrow>
          (case responseText of
             JStr t \<Rightarrow>
               (case match_array t of
                  Some m \<Rightarrow>
                    (case parse (JStr m) of
                       Inr v \<Rightarrow> Inr v
                     | Inl extractErr \<Rightarrow> Inl (ExtractedJsonFailed extractErr))
                | None \<Rightarrow> Inl directParseErr)
           | _ \<Rightarrow> Inl (TypeError ''responseText.match is not a function'')))"

definition default_plan :: jv where
  "default_plan = JArr
     [JObj [(''name'', JStr ''Research vacation options''),
            (''description'', JStr ''Research and suggest vacation options based on user preferences''),
            (''inputs'', JArr [JStr ''user_preferences'']),
            (''outputs'', JArr [JStr ''vacation_suggestions''])],
      JObj [(''name'', JStr ''Create vacation itinerary''),
            (''description'', JStr ''Create a detailed itinerary for the vacation''),
            (''inputs'', JArr [JStr ''vacation_suggestions'', JStr ''user_preferences'']),
            (''outputs'', JArr [JStr ''vacation_itinerary''])],
      JObj [(''name'', JStr ''Book accommodations and transportation''),
            (''description'', JStr ''Book accommodations and transportation for the vacation''),
            (''inputs'', JArr [JStr ''vacation_itinerary'', JStr ''user_preferences'']),
            (''outputs'', JArr [JStr ''booking_confirmations''])]]"

text \<open>The four properties read from a task; a \<^verbatim>\<open>TypeError\<close> when the task is \<^verbatim>\<open>null\<close>.\<close>

definition task_fields :: "jv \<Rightarrow> error + (jv \<times> jv \<times> jv \<times> jv)" where
  "task_fields task =
     (case plain_field task ''name'' of
        Inl e \<Rightarrow> Inl e
      | Inr name \<Rightarrow>
          (case plain_field task ''description'' of
             Inl e \<Rightarrow> Inl e
           | Inr d \<Rightarrow>
               (case plain_field task ''inputs'' of
                  Inl e \<Rightarrow> Inl e
                | Inr i \<Rightarrow>
                    (case plain_field task ''outputs'' of
                       Inl e \<Rightarrow> Inl e
                     | Inr out \<Rightarrow> Inr (name, d, js_or i (JArr []), js_or out (JArr []))))))"

definition quoted :: "string \<Rightarrow> string" where
  "quoted t = [CHR 0x22] @ t @ [CHR 0x22]"

text \<open>The loop of \<^verbatim>\<open>planJobsFromGoal\<close> that turns each task into a brief and a job.\<close>

fun plan_jobs ::
  "agency \<Rightarrow> string \<Rightarrow> string \<Rightarrow> nat \<Rightarrow> jv list \<Rightarrow> string list \<Rightarrow> (error + string list) \<times> agency" where
  "plan_jobs s agentId goal i [] jobIds = (Inr jobIds, s)"
| "plan_jobs s agentId goal i (task # tasks) jobIds =
     (let jid = agentId @ ''-goal-'' @ show_nat (clock s) @ ''-'' @ show_nat i
      in case task_fields task of
           Inl e \<Rightarrow> (Inl e, s)
         | Inr (name, d, ins, outs) \<Rightarrow>
             (let b = [(''goal'', JStr goal), (''taskName'', name), (''overview'', d),
                       (''inputs'', ins), (''expectedOutputs'', outs),
                       (''instructions'', JStr (''You are to complete the task '' @ quoted (to_string name)
                          @ '' as part of the broader goal '' @ quoted goal
                          @ ''. Use the provided inputs and return the expected outputs.''))];
                  s1 = createBrief s jid b
              in case assignJob s1 jid agentId (One ''agent'') of
                   (Inl e, s2) \<Rightarrow> (Inl e, s2)
                 | (Inr j, s2) \<Rightarrow> plan_jobs s2 agentId goal (i + 1) tasks (jobIds @ [jid])))"

text \<open>
  \<^verbatim>\<open>planJobsFromGoal(agentId, goal)\<close>: the ids of the jobs it created, or the built-in
  plan when the reply could not be parsed.
\<close>

definition planJobsFromGoal ::
  "(jv \<Rightarrow> error + jv) \<Rightarrow> agency \<Rightarrow> string \<Rightarrow> string \<Rightarrow> (error + jv) \<times> agency" where
  "planJobsFromGoal parse s agentId goal =
     (case agents s agentId of
        None \<Rightarrow> (Inl (AgentNotFound agentId), s)
      | Some a \<Rightarrow>
          (case a (PlanningPrompt goal) of
             Inl e \<Rightarrow> (Inl e, s)
           | Inr planResponse \<Rightarrow>
               (case response_text planResponse of
                  Inl e \<Rightarrow> (Inl e, s)
                | Inr responseText \<Rightarrow>
                    (case parse_reply parse responseText of
                       Inl err \<Rightarrow> (Inr default_plan, s)
                     | Inr taskPlan \<Rightarrow>
                         (case taskPlan of
                            JArr tasks \<Rightarrow>
                              (case plan_jobs s agentId goal 0 tasks [] of
                                 (Inl e, s1) \<Rightarrow> (Inl e, s1)
                               | (Inr ids, s1) \<Rightarrow> (Inr (JArr (map JStr ids)), s1))
                          | _ \<Rightarrow> (Inl (PlanNotArray taskPlan), s))))))"

fun replan_jobs ::
  "agency \<Rightarrow> string \<Rightarrow> string \<Rightarrow> obj \<Rightarrow> string \<Rightarrow> nat \<Rightarrow> jv list \<Rightarrow> string list
     \<Rightarrow> (error + string list) \<times> agency" where
  "replan_jobs s failedJobId aid b msg i [] newJobIds = (Inr newJobIds, s)"
| "replan_jobs s failedJobId aid b msg i (task # tasks) newJobIds =
     (let jid = aid @ ''-replan-'' @ show_nat (clock s) @ ''-'' @ show_nat i
      in case task_fields task of
           Inl e \<Rightarrow> (Inl e, s)
         | Inr (name, d, ins, outs) \<Rightarrow>
             (let newBrief = [(''goal'', lookup b ''goal''), (''taskName'', name), (''overview'', d),
                       (''inputs'', ins), (''expectedOutputs'', outs),
                       (''instructions'', JStr (''This is an alternative approach after the original task ''
                          @ quoted (to_string (lookup b ''taskName'')) @ '' failed with error: ''
                          @ quoted msg @ ''.'')),
                       (''originalJobId'', JStr failedJobId)];
                  s1 = createBrief s jid newBrief
              in case assignJob s1 jid aid (One ''agent'') of
                   (Inl e, s2) \<Rightarrow> (Inl e, s2)
                 | (Inr j, s2) \<Rightarrow> replan_jobs s2 failedJobId aid b msg (i + 1) tasks (newJobIds @ [jid])))"

text \<open>\<^verbatim>\<open>replanFailedJob(failedJobId, error)\<close>; \<open>msg\<close> is \<^verbatim>\<open>error.message\<close>.\<close>

definition replanFailedJob ::
  "(jv \<Rightarrow> error + jv) \<Rightarrow> agency \<Rightarrow> string \<Rightarrow> string \<Rightarrow> (error + jv) \<times> agency" where
  "replanFailedJob parse s failedJobId msg =
     (case activeJobs s failedJobId of
        None \<Rightarrow> (Inl (JobNotFound failedJobId), s)
      | Some j \<Rightarrow>
          (case agents s (assigneeId j) of
             None \<Rightarrow> (Inl (AgentNotFound (assigneeId j)), s)
           | Some a \<Rightarrow>
               (case brief s failedJobId of
                  None \<Rightarrow> (Inl (NoGoalContext failedJobId), s)
                | Some b \<Rightarrow>
                    if \<not> truthy (lookup b ''goal'') then (Inl (NoGoalContext failedJobId), s)
                    else
                      (case a (ReplanningPrompt (lookup b ''goal'') (lookup b ''taskName'')
                                 (lookup b ''overview'') msg) of
                         Inl e \<Rightarrow> (Inl e, s)
                       | Inr replanResponse \<Rightarrow>
                           (case response_text replanResponse of
                              Inl e \<Rightarrow> (Inl e, s)
                            | Inr responseText \<Rightarrow>
                                (case parse_reply parse responseText of
                                   Inl err \<Rightarrow> (Inl (ReplanParseFailed err), s)
                                 | Inr alternatives \<Rightarrow>
                                     (case alternatives of
                                        JArr tasks \<Rightarrow>
                                          (case replan_jobs s failedJobId (assigneeId j) b msg 0 tasks [] of
                                             (Inl e, s1) \<Rightarrow> (Inl e, s1)
                                           | (Inr ids, s1) \<Rightarrow> (Inr (JArr (map JStr ids)), s1))
                                      | _ \<Rightarrow> (Inl (ReplanNotArray alternatives), s))))))))"

section \<open>Notions used to state the properties\<close>

text \<open>The fields that no operation writes, and those that no operation on jobs writes.\<close>

definition fixed where
  "fixed s = (agents s, team s, errorHandlers s, workflowErrorHandlers s, jobSchemas s, clock s)"

definition wf_part where
  "wf_part s = (workflows s, globalMemory s, memoryScopes s, memoryAccessControl s)"

definition has_wf :: "agency \<Rightarrow> string \<Rightarrow> bool" where
  "has_wf s w = (workflows s w \<noteq> None)"

text \<open>What a call returns once it is in its \<^verbatim>\<open>catch\<close> block with error \<open>e\<close>.\<close>

definition handled :: "(error \<Rightarrow> job \<Rightarrow> error + jv) option \<Rightarrow> job \<Rightarrow> error \<Rightarrow> error + jv" where
  "handled handler j e =
     (case handler of
        None \<Rightarrow> Inl e
      | Some h \<Rightarrow> (case h e j of Inr v \<Rightarrow> Inr v | Inl he \<Rightarrow> Inl e))"

text \<open>The state once \<^verbatim>\<open>execute\<close> has marked the job as started.\<close>

definition job_started :: "agency \<Rightarrow> string \<Rightarrow> job \<Rightarrow> agency" where
  "job_started s jid j =
     s\<lparr>activeJobs := (activeJobs s)(jid \<mapsto> j\<lparr>status := in_progress, startedAt := Some (clock s)\<rparr>),
       statusLog := statusLog s @ [(jid, Some (status j), in_progress)],
       events := events s @ [JobStarted jid]\<rparr>"

text \<open>
  The error, if any, that sends a call of \<^verbatim>\<open>execute\<close> on job \<open>j\<close> to its \<^verbatim>\<open>catch\<close>
  block before the job is marked completed: from the brief, the input validation, the
  assignee, its run, or the output validation.
\<close>

definition exec_failure :: "agency \<Rightarrow> string \<Rightarrow> job \<Rightarrow> obj \<Rightarrow> error option" where
  "exec_failure s jid j x =
     (case mergedInputs s jid j x of
        Inl e \<Rightarrow> Some e
      | Inr m \<Rightarrow>
          (case check_input s jid m of
             Some e \<Rightarrow> Some e
           | None \<Rightarrow>
               (case assignee_of s j of
                  None \<Rightarrow> Some (TypeError ''Cannot read properties of undefined'')
                | Some a \<Rightarrow>
                    (case a (run_input_of s jid j m) of
                       Inl e \<Rightarrow> Some e
                     | Inr res \<Rightarrow> check_output s jid res))))"

text \<open>The calls of \<^verbatim>\<open>run\<close> that one call of \<^verbatim>\<open>execute\<close> on job \<open>j\<close> makes: one or none.\<close>

definition run_entries :: "agency \<Rightarrow> string \<Rightarrow> job \<Rightarrow> obj \<Rightarrow> (string \<times> obj \<times> run_input) list" where
  "run_entries s jid j x =
     (case mergedInputs s jid j x of
        Inl e \<Rightarrow> []
      | Inr m \<Rightarrow>
          (case check_input s jid m of
             Some e \<Rightarrow> []
           | None \<Rightarrow>
               (case assignee_of s j of
                  None \<Rightarrow> []
                | Some a \<Rightarrow> [(jid, m, run_input_of s jid j m)])))"

text \<open>The state a failed call of \<^verbatim>\<open>execute\<close> leaves.\<close>

definition failed_state :: "agency \<Rightarrow> string \<Rightarrow> job \<Rightarrow> obj \<Rightarrow> error \<Rightarrow> agency" where
  "failed_state s jid j x e =
     s\<lparr>activeJobs := (activeJobs s)(jid \<mapsto> j\<lparr>startedAt := Some (clock s), status := failed, error := Some e\<rparr>),
        statusLog := statusLog s @ [(jid, Some (status j), in_progress), (jid, Some in_progress, failed)],
        events := events s @ [JobStarted jid, JobFailed jid e],
        runLog := runLog s @ run_entries s jid j x\<rparr>"

text \<open>\<^verbatim>\<open>job.retryCount || 0\<close>, and the state in which \<^verbatim>\<open>retryJob\<close> calls \<^verbatim>\<open>execute\<close>.\<close>

definition retries :: "job \<Rightarrow> nat" where
  "retries j = (case retryCount j of None \<Rightarrow> 0 | Some n \<Rightarrow> n)"

definition retry_state :: "agency \<Rightarrow> string \<Rightarrow> job \<Rightarrow> int \<Rightarrow> agency" where
  "retry_state s jid j maxRetries =
     s\<lparr>activeJobs := (activeJobs s)(jid \<mapsto> j\<lparr>retryCount := Some (retries j + 1), status := assigned, error := None\<rparr>),
       statusLog := statusLog s @ [(jid, Some (status j), assigned)],
       events := events s @ [JobRetrying jid (retries j + 1) maxRetries]\<rparr>"

section \<open>A new agency, and states used as examples\<close>

text \<open>The constructor: everything empty, the global scope in place.\<close>

definition new_agency :: "nat \<Rightarrow> agency" where
  "new_agency now =
     \<lparr>agents = Map.empty, team = Map.empty, brief = Map.empty, activeJobs = Map.empty,
      globalMemory = new_memory, memoryScopes = Map.empty, jobContexts = Map.empty,
      workflows = Map.empty, errorHandlers = Map.empty, workflowErrorHandlers = Map.empty,
      jobSchemas = Map.empty, memoryAccessControl = Map.empty, events = [], clock = now,
      statusLog = [], runLog = []\<rparr>"

text \<open>Two scopes \<open>a\<close> and \<open>b\<close>; \<open>a\<close> holds the key \<open>k\<close>.\<close>

definition two_scopes :: agency where
  "two_scopes = (new_agency 0)\<lparr>memoryScopes :=
      [''a'' \<mapsto> \<lparr>keyValueStore = [(''k'', JNum 1)], wrappers = []\<rparr>, ''b'' \<mapsto> new_memory]\<rparr>"

text \<open>
  The same with a second key \<open>k2\<close> in \<open>a\<close>, and the state after a read-only grant of
  one key from \<open>a\<close> to \<open>b\<close>.
\<close>

definition two_keys :: agency where
  "two_keys = (new_agency 0)\<lparr>memoryScopes :=
      [''a'' \<mapsto> \<lparr>keyValueStore = [(''k'', JNum 1), (''k2'', JNum 2)], wrappers = []\<rparr>,
       ''b'' \<mapsto> new_memory]\<rparr>"

definition after_grant :: "agency \<Rightarrow> string \<Rightarrow> agency" where
  "after_grant s k =
     (case shareMemoryBetween s ''a'' ''b'' [k] ''read-only'' of Inl e \<Rightarrow> s | Inr s' \<Rightarrow> s')"

text \<open>Assignees that always resolve to one value, or always reject.\<close>

definition agent_returning :: "jv \<Rightarrow> runnable" where
  "agent_returning v = (\<lambda>inp. Inr v)"

definition agent_rejecting :: "string \<Rightarrow> runnable" where
  "agent_rejecting msg = (\<lambda>inp. Inl (RunFailed msg))"

text \<open>An agency with one agent \<open>a1\<close> and a brief for job \<open>j1\<close>; the same with the job assigned.\<close>

definition office :: "runnable \<Rightarrow> agency" where
  "office r = createBrief ((new_agency 0)\<lparr>agents := [''a1'' \<mapsto> r]\<rparr>) ''j1'' []"

text \<open>A sequential step that names a job and an agent and nothing else.\<close>

definition plain_step :: "string \<Rightarrow> string \<Rightarrow> step" where
  "plain_step jid aid = \<lparr>sjobId = One jid, sassigneeId = One aid, sassigneeType = Absent,
     inputs = Absent, stype = None, sbrief = Absent, condition = None\<rparr>"

definition job_assigned :: "runnable \<Rightarrow> agency" where
  "job_assigned r = snd (assignJob (office r) ''j1'' ''a1'' Absent)"

text \<open>A rejecting agent with a per-job handler, and with a workflow-level handler.\<close>

definition rescued :: agency where
  "rescued = (job_assigned (agent_rejecting ''boom''))\<lparr>errorHandlers :=
      [''j1'' \<mapsto> (\<lambda>e j. Inr (JStr ''fallback''))]\<rparr>"

definition rescued_office :: agency where
  "rescued_office = (office (agent_rejecting ''boom''))\<lparr>workflowErrorHandlers :=
      [''w1'' \<mapsto> (\<lambda>e r. Inr (JStr ''recovered''))]\<rparr>"

text \<open>The office in which the memory scope of a workflow id exists already.\<close>

definition scope_taken :: "string \<Rightarrow> agency" where
  "scope_taken w =
     (case createMemoryScope (office (agent_returning JNull)) (scope_name w) of
        Inl e \<Rightarrow> office (agent_returning JNull)
      | Inr s \<Rightarrow> s)"

text \<open>The job object of \<open>j1\<close>, in a given status and with given results.\<close>

definition first_job :: "status \<Rightarrow> jv \<Rightarrow> job" where
  "first_job st res = \<lparr>jobId = ''j1'', jbrief = [(''jobId'', JStr ''j1''), (''createdAt'', JDate 0)],
     assigneeId = ''a1'', assigneeType = One ''agent'', status = st, assignedAt = 0,
     startedAt = None, completedAt = None, results = res, error = None, retryCount = None\<rparr>"

text \<open>The office with job \<open>j1\<close> in a given status and with given results.\<close>

definition with_job :: "status \<Rightarrow> jv \<Rightarrow> agency" where
  "with_job st res = (office (agent_returning JNull))\<lparr>activeJobs := [''j1'' \<mapsto> first_job st res],
      jobContexts := [''j1'' \<mapsto> []]\<rparr>"

text \<open>The job executed once; a one-step workflow \<open>w1\<close> run once.\<close>

definition job_done :: "runnable \<Rightarrow> agency" where
  "job_done r = snd (execute (job_assigned r) ''j1'' [])"

definition ran_once :: agency where
  "ran_once = fst (snd (executeWorkflow (\<lambda>i. []) (office (agent_returning JNull))
                 [plain_step ''j1'' ''a1''] ''w1'' []))"

text \<open>
  A call of one of the three operations on jobs, and the state after a sequence of such
  calls (whatever each call returns or throws).
\<close>

datatype call =
    AssignJob string string "string oom"
  | Execute string obj
  | RetryJob string int obj

fun apply_call :: "agency \<Rightarrow> call \<Rightarrow> agency" where
  "apply_call s (AssignJob jid aid t) = snd (assignJob s jid aid t)"
| "apply_call s (Execute jid x) = snd (execute s jid x)"
| "apply_call s (RetryJob jid n x) = snd (retryJob s jid n x)"

definition apply_calls :: "agency \<Rightarrow> call list \<Rightarrow> agency" where
  "apply_calls s cs = foldl apply_call s cs"

text \<open>Every active job has a job context: \<^verbatim>\<open>assignJob\<close> sees to it.\<close>

definition ctx_ok :: "agency \<Rightarrow> bool" where
  "ctx_ok s = (\<forall>jid. activeJobs s jid \<noteq> None \<longrightarrow> jobContexts s jid \<noteq> None)"

text \<open>The writes to a job's status that each operation makes.\<close>

fun edge_ok :: "call \<Rightarrow> string \<times> status option \<times> status \<Rightarrow> bool" where
  "edge_ok (AssignJob jid aid t) (k, old, new) = (k = jid \<and> new = assigned)"
| "edge_ok (Execute jid x) (k, old, new) =
     (k = jid \<and> ((old \<noteq> None \<and> new = in_progress)
                \<or> (old = Some in_progress \<and> (new = completed \<or> new = failed))))"
| "edge_ok (RetryJob jid n x) (k, old, new) =
     (k = jid \<and> ((old = Some failed \<and> new = assigned)
                \<or> (old = Some assigned \<and> new = in_progress)
                \<or> (old = Some in_progress \<and> (new = completed \<or> new = failed))))"

text \<open>A parser that rejects every text, and a state in which job \<open>j1\<close> of a goal has failed.\<close>

definition reject_all :: "jv \<Rightarrow> error + jv" where
  "reject_all v = Inl (SyntaxError ''Unexpected token'')"

definition goal_failed :: "runnable \<Rightarrow> agency" where
  "goal_failed r = (new_agency 0)\<lparr>agents := [''a1'' \<mapsto> r],
      brief := [''j1'' \<mapsto> [(''goal'', JStr ''plan a picnic''), (''taskName'', JStr ''buy food'')]],
      activeJobs := [''j1'' \<mapsto> first_job failed JNull]\<rparr>"





text \<open>
  A started branch that can only reject: it is over with an error, or it waits for a run
  that rejects.
\<close>

fun rejecting :: "started \<Rightarrow> bool" where
  "rejecting (Settled r) = isl r"
| "rejecting (Waiting j out) = isl out"

text \<open>
  Whatever is registered under the assignee id \<open>aid\<close> rejects every input, and job
  \<open>jid\<close> has no error handler.
\<close>

definition always_rejects :: "agency \<Rightarrow> string \<Rightarrow> string \<Rightarrow> bool" where
  "always_rejects s aid jid =
     ((\<forall>r inp. agents s aid = Some r \<or> team s aid = Some r \<longrightarrow> isl (r inp))
      \<and> errorHandlers s jid = None)"

text \<open>A branch that can only reject and whose job has no error handler.\<close>

definition doomed :: "agency \<Rightarrow> branch \<Rightarrow> bool" where
  "doomed s b = (rejecting (snd (snd (snd b))) \<and> errorHandlers s (fst (snd b)) = None)"

text \<open>
  Three agents, the second of which rejects, and a parallel step with one branch for each.
\<close>

definition trio :: agency where
  "trio = (new_agency 0)\<lparr>agents := [''a1'' \<mapsto> agent_returning (JStr ''one''),
      ''a2'' \<mapsto> agent_rejecting ''boom'', ''a3'' \<mapsto> agent_returning (JStr ''three'')]\<rparr>"

definition fan_out :: step where
  "fan_out = \<lparr>sjobId = Many [''j1'', ''j2'', ''j3''], sassigneeId = Many [''a1'', ''a2'', ''a3''],
     sassigneeType = Absent, inputs = Absent, stype = Some ''parallel'', sbrief = Absent,
     condition = None\<rparr>"

text \<open>\<^verbatim>\<open>scope.recall(k)\<close> on the scope of a given id; \<^verbatim>\<open>undefined\<close> when there is none.\<close>

definition recall_in :: "agency \<Rightarrow> string \<Rightarrow> string \<Rightarrow> jv" where
  "recall_in s scopeId k = (case scope_of s scopeId of None \<Rightarrow> JUndef | Some m \<Rightarrow> recall m k)"

text \<open>
  The store of a memory scope is a plain object. Under the names of the members of
  \<^verbatim>\<open>Object.prototype\<close> a key that the store does not hold reads as that member, and an
  assignment to \<^verbatim>\<open>__proto__\<close> stores nothing; stores here hold values only, so the
  properties of sharing are stated for keys other than these names.
\<close>

definition prototype_names :: "string list" where
  "prototype_names = ''__proto__'' # object_members"

text \<open>The state after sharing keys from \<open>a\<close> to \<open>b\<close>.\<close>

definition after_share :: "agency \<Rightarrow> string list \<Rightarrow> string \<Rightarrow> agency" where
  "after_share s keys mode =
     (case shareMemoryBetween s ''a'' ''b'' keys mode of Inl e \<Rightarrow> s | Inr s' \<Rightarrow> s')"

section \<open>Properties of objects and of memory scopes\<close>

lemma map_of_set_prop: "map_of (set_prop k v ps) = (map_of ps)(k \<mapsto> v)"
  by (induction ps) auto

lemma lookup_set_prop: "lookup (set_prop k v ps) k' = (if k' = k then v else lookup ps k')"
  by (simp add: lookup_def map_of_set_prop)




lemma wrappers_remember_via: "wrappers (snd (remember_via ws m k v)) = wrappers m"
  by (induction ws) (auto simp: base_remember_def)

lemma wrappers_remember [simp]: "wrappers (snd (remember m k v)) = wrappers m"
  by (simp add: remember_def wrappers_remember_via)

lemma wrappers_remember_all [simp]: "wrappers (remember_all m calls) = wrappers m"
  by (induction calls arbitrary: m) auto

lemma remember_via_blocked: "k \<in> set ws \<Longrightarrow> remember_via ws m k v = (JBool False, m)"
  by (induction ws) auto

lemma remember_via_free: "k \<notin> set ws \<Longrightarrow> remember_via ws m k v = base_remember m k v"
  by (induction ws) auto

lemma remember_blocked: "k \<in> set (wrappers m) \<Longrightarrow> remember m k v = (JBool False, m)"
  by (simp add: remember_def remember_via_blocked)

lemma remember_free:
  "k \<notin> set (wrappers m) \<Longrightarrow>
     remember m k v = (JUndef, m\<lparr>keyValueStore := set_prop k v (keyValueStore m)\<rparr>)"
  by (simp add: remember_def remember_via_free base_remember_def)

lemma scope_of_put_scope [simp]:
  "scope_of (put_scope a m s) b = (if b = a then Some m else scope_of s b)"
  by (auto simp: scope_of_def put_scope_def)

lemma scope_of_emit [simp]: "scope_of (emit e s) a = scope_of s a"
  by (simp add: scope_of_def emit_def)

lemma scope_of_acl [simp]: "scope_of (s\<lparr>memoryAccessControl := x\<rparr>) a = scope_of s a"
  by (simp add: scope_of_def)

lemma share_single_read_only:
  assumes "scope_of s src = Some sm" and "scope_of s tgt = Some tm0" and "recall sm k \<noteq> JUndef"
  shows "\<exists>s' tm. shareMemoryBetween s src tgt [k] ''read-only'' = Inr s'
           \<and> scope_of s' tgt = Some tm \<and> wrappers tm = k # wrappers tm0"
  using assms
  by (simp add: shareMemoryBetween_def getMemoryScope_def share_key_def Let_def)

text \<open>
  Claim C3, amended. After \<^verbatim>\<open>shareMemoryBetween(src, tgt, [k], 'read-only')\<close> for a key
  \<open>k\<close> present in the source scope, every later \<^verbatim>\<open>remember(k, v)\<close> on the target
  scope, also after any number of other \<^verbatim>\<open>remember\<close> calls on it, returns \<^verbatim>\<open>false\<close> and
  leaves the scope as it was; \<^verbatim>\<open>remember(k', v)\<close> for another key \<open>k'\<close> returns normally
  and stores the value provided that no earlier read-only grant into the target covers
  \<open>k'\<close> (and that \<open>k'\<close> is not \<^verbatim>\<open>__proto__\<close>, under which an assignment to a plain
  object stores nothing). Without the proviso on earlier grants the second half fails:
  each read-only grant wraps the \<^verbatim>\<open>remember\<close> of the target and the earlier wrappers
  stay in place, as the example after the theorem shows.
\<close>

theorem read_only_grant_blocks_key:
  assumes "scope_of s src = Some sm" and "scope_of s tgt = Some tm0" and "recall sm k \<noteq> JUndef"
  shows "\<exists>s' tm. shareMemoryBetween s src tgt [k] ''read-only'' = Inr s'
           \<and> scope_of s' tgt = Some tm
           \<and> (\<forall>calls v. remember (remember_all tm calls) k v = (JBool False, remember_all tm calls))
           \<and> (\<forall>calls v k'. k' \<noteq> k \<and> k' \<noteq> ''__proto__'' \<and> k' \<notin> set (wrappers tm0) \<longrightarrow>
                 fst (remember (remember_all tm calls) k' v) = JUndef
                 \<and> recall (snd (remember (remember_all tm calls) k' v)) k' = v)"
proof -
  from share_single_read_only [OF assms] obtain s' tm where
    sh: "shareMemoryBetween s src tgt [k] ''read-only'' = Inr s'"
    and tg: "scope_of s' tgt = Some tm" and w: "wrappers tm = k # wrappers tm0"
    by (elim exE conjE)
  have blocked: "remember (remember_all tm calls) k v = (JBool False, remember_all tm calls)" for calls v
    by (rule remember_blocked) (simp add: w)
  have free: "fst (remember (remember_all tm calls) k' v) = JUndef
      \<and> recall (snd (remember (remember_all tm calls) k' v)) k' = v"
    if "k' \<noteq> k" and "k' \<noteq> ''__proto__''" and "k' \<notin> set (wrappers tm0)" for calls v k'
  proof -
    have "k' \<notin> set (wrappers (remember_all tm calls))" using that by (simp add: w)
    then show ?thesis by (simp add: remember_free recall_def lookup_set_prop)
  qed
  show ?thesis
    by (intro exI [of _ s'] exI [of _ tm] conjI allI impI) (use sh tg blocked free in simp_all)
qed

theorem read_only_grant_blocks_key_witness:
  "scope_of two_scopes ''a'' = Some \<lparr>keyValueStore = [(''k'', JNum 1)], wrappers = []\<rparr>
   \<and> scope_of two_scopes ''b'' = Some new_memory
   \<and> recall \<lparr>keyValueStore = [(''k'', JNum 1)], wrappers = []\<rparr> ''k'' \<noteq> JUndef
   \<and> (\<exists>s' tm. shareMemoryBetween two_scopes ''a'' ''b'' [''k''] ''read-only'' = Inr s'
         \<and> scope_of s' ''b'' = Some tm
         \<and> remember tm ''k'' (JNum 2) = (JBool False, tm)
         \<and> fst (remember tm ''x'' (JNum 2)) = JUndef
         \<and> recall (snd (remember tm ''x'' (JNum 2))) ''x'' = JNum 2)"
proof -
  have h1: "scope_of two_scopes ''a'' = Some \<lparr>keyValueStore = [(''k'', JNum 1)], wrappers = []\<rparr>"
    by (simp add: two_scopes_def scope_of_def new_agency_def)
  have h2: "scope_of two_scopes ''b'' = Some new_memory"
    by (simp add: two_scopes_def scope_of_def new_agency_def)
  have h3: "recall \<lparr>keyValueStore = [(''k'', JNum 1)], wrappers = []\<rparr> ''k'' \<noteq> JUndef"
    by (simp add: recall_def lookup_def)
  have x: "''x'' \<noteq> ''k'' \<and> ''x'' \<noteq> ''__proto__'' \<and> ''x'' \<notin> set (wrappers new_memory)"
    by (simp add: new_memory_def)
  from read_only_grant_blocks_key [OF h1 h2 h3] obtain s' tm where
    sh: "shareMemoryBetween two_scopes ''a'' ''b'' [''k''] ''read-only'' = Inr s'"
    and tg: "scope_of s' ''b'' = Some tm"
    and bl: "\<forall>calls v. remember (remember_all tm calls) ''k'' v = (JBool False, remember_all tm calls)"
    and fr: "\<forall>calls v k'. k' \<noteq> ''k'' \<and> k' \<noteq> ''__proto__'' \<and> k' \<notin> set (wrappers new_memory) \<longrightarrow>
                 fst (remember (remember_all tm calls) k' v) = JUndef
                 \<and> recall (snd (remember (remember_all tm calls) k' v)) k' = v"
    by (elim exE conjE)
  from bl [rule_format, of "[]" "JNum 2"] have b: "remember tm ''k'' (JNum 2) = (JBool False, tm)"
    by simp
  from fr [rule_format, of "''x''" "[]" "JNum 2", OF x]
  have f: "fst (remember tm ''x'' (JNum 2)) = JUndef
      \<and> recall (snd (remember tm ''x'' (JNum 2))) ''x'' = JNum 2"
    by simp
  show ?thesis
    by (intro conjI exI [of _ s'] exI [of _ tm]) (use h1 h2 h3 sh tg b f in simp_all)
qed

text \<open>
  A key other than \<open>k\<close> that is refused: \<open>k2\<close> was granted read-only before \<open>k\<close>.
\<close>

theorem read_only_grant_blocks_key_counterexample:
  "shareMemoryBetween two_keys ''a'' ''b'' [''k2''] ''read-only'' = Inr (after_grant two_keys ''k2'')
   \<and> shareMemoryBetween (after_grant two_keys ''k2'') ''a'' ''b'' [''k''] ''read-only''
        = Inr (after_grant (after_grant two_keys ''k2'') ''k'')
   \<and> scope_of (after_grant (after_grant two_keys ''k2'') ''k'') ''b''
        = Some \<lparr>keyValueStore = [(''k2'', JNum 2), (''k'', JNum 1)], wrappers = [''k'', ''k2'']\<rparr>
   \<and> ''k2'' \<noteq> ''k''
   \<and> remember \<lparr>keyValueStore = [(''k2'', JNum 2), (''k'', JNum 1)], wrappers = [''k'', ''k2'']\<rparr>
         ''k2'' (JNum 5)
        = (JBool False, \<lparr>keyValueStore = [(''k2'', JNum 2), (''k'', JNum 1)], wrappers = [''k'', ''k2'']\<rparr>)"
  by (simp add: after_grant_def two_keys_def new_agency_def new_memory_def shareMemoryBetween_def
        getMemoryScope_def share_key_def scope_of_def put_scope_def emit_def Let_def recall_def
        lookup_def remember_def base_remember_def)

section \<open>Fields that operations leave alone\<close>

lemma fixed_emit [simp]: "fixed (emit e s) = fixed s"
  by (simp add: fixed_def emit_def)

lemma fixed_put_scope [simp]: "fixed (put_scope a m s) = fixed s"
  by (simp add: fixed_def put_scope_def)

lemma fixed_put_job [simp]: "fixed (put_job att jid j s) = fixed s"
  by (simp add: fixed_def put_job_def)

lemma fixed_write_status [simp]: "fixed (snd (write_status att jid st j s)) = fixed s"
  by (simp add: fixed_def write_status_def put_job_def)

lemma fixed_catch_job [simp]: "fixed (snd (catch_job att s jid j e)) = fixed s"
  by (simp add: catch_job_def Let_def split: option.splits sum.splits)

lemma fixed_createBrief [simp]: "fixed (createBrief s jid b) = fixed s"
  by (simp add: createBrief_def Let_def fixed_def emit_def)

lemma fixed_createJobContext [simp]: "fixed (createJobContext s jid c) = fixed s"
  by (simp add: createJobContext_def Let_def fixed_def emit_def)

lemma fixed_updateJobContext: "updateJobContext s jid u = Inr s' \<Longrightarrow> fixed s' = fixed s"
  by (auto simp: updateJobContext_def Let_def fixed_def emit_def split: option.splits)

lemma fixed_assignJob [simp]: "fixed (snd (assignJob s jid aid t)) = fixed s"
  by (simp add: assignJob_def Let_def fixed_def emit_def createJobContext_def
      split: option.splits oom.splits)

lemma fixed_runLog [simp]: "fixed (s\<lparr>runLog := x\<rparr>) = fixed s"
  by (simp add: fixed_def)

lemma fixed_begin_job [simp]: "fixed (snd (begin_job s jid j x)) = fixed s"
  by (simp add: begin_job_def Let_def split: option.splits sum.splits)

lemma fixed_finish_job [simp]: "fixed (snd (finish_job att s jid j out)) = fixed s"
  by (auto simp: finish_job_def Let_def dest: fixed_updateJobContext split: option.splits sum.splits)

lemma fixed_execute_start [simp]: "fixed (snd (execute_start s jid x)) = fixed s"
  by (simp add: execute_start_def split: option.splits)

lemma fixed_execute [simp]: "fixed (snd (execute s jid x)) = fixed s"
proof -
  obtain b s1 where st: "execute_start s jid x = (b, s1)" by (cases "execute_start s jid x")
  then have "fixed s1 = fixed s" using fixed_execute_start [of s jid x] by simp
  with st show ?thesis by (cases b) (simp_all add: execute_def)
qed



lemma wf_part_emit [simp]: "wf_part (emit e s) = wf_part s"
  by (simp add: wf_part_def emit_def)

lemma wf_part_put_job [simp]: "wf_part (put_job att jid j s) = wf_part s"
  by (simp add: wf_part_def put_job_def)

lemma wf_part_write_status [simp]: "wf_part (snd (write_status att jid st j s)) = wf_part s"
  by (simp add: wf_part_def write_status_def put_job_def)

lemma wf_part_catch_job [simp]: "wf_part (snd (catch_job att s jid j e)) = wf_part s"
  by (simp add: catch_job_def Let_def split: option.splits sum.splits)

lemma wf_part_createBrief [simp]: "wf_part (createBrief s jid b) = wf_part s"
  by (simp add: createBrief_def Let_def wf_part_def emit_def)

lemma wf_part_createJobContext [simp]: "wf_part (createJobContext s jid c) = wf_part s"
  by (simp add: createJobContext_def Let_def wf_part_def emit_def)

lemma wf_part_updateJobContext: "updateJobContext s jid u = Inr s' \<Longrightarrow> wf_part s' = wf_part s"
  by (auto simp: updateJobContext_def Let_def wf_part_def emit_def split: option.splits)

lemma wf_part_assignJob [simp]: "wf_part (snd (assignJob s jid aid t)) = wf_part s"
  by (simp add: assignJob_def Let_def wf_part_def emit_def createJobContext_def
      split: option.splits oom.splits)

lemma wf_part_runLog [simp]: "wf_part (s\<lparr>runLog := x\<rparr>) = wf_part s"
  by (simp add: wf_part_def)

lemma wf_part_begin_job [simp]: "wf_part (snd (begin_job s jid j x)) = wf_part s"
  by (simp add: begin_job_def Let_def split: option.splits sum.splits)

lemma wf_part_finish_job [simp]: "wf_part (snd (finish_job att s jid j out)) = wf_part s"
  by (auto simp: finish_job_def Let_def dest: wf_part_updateJobContext split: option.splits sum.splits)

lemma wf_part_execute_start [simp]: "wf_part (snd (execute_start s jid x)) = wf_part s"
  by (simp add: execute_start_def split: option.splits)

lemma wf_part_execute [simp]: "wf_part (snd (execute s jid x)) = wf_part s"
proof -
  obtain b s1 where st: "execute_start s jid x = (b, s1)" by (cases "execute_start s jid x")
  then have "wf_part s1 = wf_part s" using wf_part_execute_start [of s jid x] by simp
  with st show ?thesis by (cases b) (simp_all add: execute_def)
qed

lemma wf_part_settle_branch [simp]: "wf_part (snd (settle_branch s b)) = wf_part s"
proof -
  obtain i jid att st where b: "b = (i, jid, att, st)" by (cases b)
  show ?thesis unfolding b by (cases st) simp_all
qed

lemma fixed_settle_branch [simp]: "fixed (snd (settle_branch s b)) = fixed s"
proof -
  obtain i jid att st where b: "b = (i, jid, att, st)" by (cases b)
  show ?thesis unfolding b by (cases st) simp_all
qed

lemma settle_all_frames:
  "wf_part (fst (snd (settle_all s bs acc))) = wf_part s
   \<and> fixed (fst (snd (settle_all s bs acc))) = fixed s"
proof (induction bs arbitrary: s acc)
  case Nil
  then show ?case by simp
next
  case (Cons b bs)
  obtain r s1 where sb: "settle_branch s b = (r, s1)" by (cases "settle_branch s b")
  have s1: "wf_part s1 = wf_part s" "fixed s1 = fixed s"
    using wf_part_settle_branch [of s b] fixed_settle_branch [of s b] sb by simp_all
  show ?case
  proof (cases r)
    case (Inl e)
    with sb s1 show ?thesis by simp
  next
    case (Inr v)
    with sb s1 Cons.IH [of s1 "acc @ [(fst b, v)]"] show ?thesis by simp
  qed
qed

lemma settle_later_frames:
  "wf_part (settle_later s bs) = wf_part s \<and> fixed (settle_later s bs) = fixed s"
  by (induction bs arbitrary: s) simp_all

lemma start_branches_frames:
  "wf_part (snd (snd (start_branches s w i st d n jids acc))) = wf_part s
   \<and> fixed (snd (snd (start_branches s w i st d n jids acc))) = fixed s"
proof (induction jids arbitrary: s n acc)
  case Nil
  then show ?case by simp
next
  case (Cons jid jids)
  let ?s1 = "ensure_brief s jid (spread (spread_opt (pick (sbrief st) n)) (parallel_tags w i n))"
  have s1: "wf_part ?s1 = wf_part s" "fixed ?s1 = fixed s"
    by (simp_all add: ensure_brief_def split: option.splits)
  obtain r s2 where aj: "assignJob ?s1 jid (opt_key (pick (sassigneeId st) n))
                (type_arg (pick (sassigneeType st) n)) = (r, s2)"
    by (cases "assignJob ?s1 jid (opt_key (pick (sassigneeId st) n))
                (type_arg (pick (sassigneeType st) n))")
  have "s2 = snd (assignJob ?s1 jid (opt_key (pick (sassigneeId st) n))
                (type_arg (pick (sassigneeType st) n)))"
    using aj by simp
  then have s2: "wf_part s2 = wf_part s" "fixed s2 = fixed s"
    using s1 by simp_all
  show ?case
  proof (cases r)
    case (Inl e)
    with aj s2 show ?thesis by (simp add: Let_def)
  next
    case (Inr j)
    let ?x = "spread (spread_opt (pick (inputs st) n)) ((''previousStepData'', d) # parallel_tags w i n)"
    have s3: "wf_part (snd (execute_start s2 jid ?x)) = wf_part s"
      "fixed (snd (execute_start s2 jid ?x)) = fixed s"
      using s2 by simp_all
    from Inr aj s3 Cons.IH [of "snd (execute_start s2 jid ?x)" "n + 1"] show ?thesis
      by (simp add: Let_def)
  qed
qed



section \<open>Executing, retrying and cleaning up a job\<close>

lemma mergedInputs_frame:
  "jobContexts s' jid = jobContexts s jid \<Longrightarrow> jbrief j' = jbrief j \<Longrightarrow>
   mergedInputs s' jid j' x = mergedInputs s jid j x"
  by (simp add: mergedInputs_def Let_def split: sum.splits)

lemma check_input_frame: "jobSchemas s' = jobSchemas s \<Longrightarrow> check_input s' jid m = check_input s jid m"
  by (simp add: check_input_def)

lemma check_output_frame: "jobSchemas s' = jobSchemas s \<Longrightarrow> check_output s' jid m = check_output s jid m"
  by (simp add: check_output_def)

lemma assignee_of_frame:
  "agents s' = agents s \<Longrightarrow> team s' = team s \<Longrightarrow> assigneeType j' = assigneeType j \<Longrightarrow>
   assigneeId j' = assigneeId j \<Longrightarrow> assignee_of s' j' = assignee_of s j"
  by (simp add: assignee_of_def)

lemma run_input_of_frame:
  "jobContexts s' jid = jobContexts s jid \<Longrightarrow> jbrief j' = jbrief j \<Longrightarrow>
   assigneeType j' = assigneeType j \<Longrightarrow> run_input_of s' jid j' m = run_input_of s jid j m"
  by (simp add: run_input_of_def Let_def)

lemma catch_job_True:
  "catch_job True s jid j e =
     (handled (errorHandlers s jid) (j\<lparr>status := failed, error := Some e\<rparr>) e,
      s\<lparr>activeJobs := (activeJobs s)(jid \<mapsto> j\<lparr>status := failed, error := Some e\<rparr>),
        statusLog := statusLog s @ [(jid, Some (status j), failed)],
        events := events s @ [JobFailed jid e]\<rparr>)"
  by (simp add: catch_job_def handled_def write_status_def put_job_def emit_def Let_def
      split: option.splits sum.splits)

lemma job_started_eq:
  "emit (JobStarted jid)
     (put_job True jid ((fst (write_status True jid in_progress j s))\<lparr>startedAt := Some (clock s)\<rparr>)
        (snd (write_status True jid in_progress j s))) = job_started s jid j"
  by (simp add: job_started_def emit_def put_job_def write_status_def)

lemma job_started_fields [simp]:
  "jobContexts (job_started s jid j) = jobContexts s"
  "jobSchemas (job_started s jid j) = jobSchemas s"
  "agents (job_started s jid j) = agents s"
  "team (job_started s jid j) = team s"
  "errorHandlers (job_started s jid j) = errorHandlers s"
  "clock (job_started s jid j) = clock s"
  "runLog (job_started s jid j) = runLog s"
  by (simp_all add: job_started_def)

lemma begin_job_eq:
  "begin_job s jid j x =
     (let j2 = j\<lparr>status := in_progress, startedAt := Some (clock s)\<rparr>; s2 = job_started s jid j
      in case mergedInputs s jid j x of
           Inl e \<Rightarrow> (Settled (fst (catch_job True s2 jid j2 e)), snd (catch_job True s2 jid j2 e))
         | Inr m \<Rightarrow>
             (case check_input s jid m of
                Some e \<Rightarrow> (Settled (fst (catch_job True s2 jid j2 e)), snd (catch_job True s2 jid j2 e))
              | None \<Rightarrow>
                  (case assignee_of s j of
                     None \<Rightarrow>
                       (Settled (fst (catch_job True s2 jid j2 (TypeError ''Cannot read properties of undefined''))),
                        snd (catch_job True s2 jid j2 (TypeError ''Cannot read properties of undefined'')))
                   | Some a \<Rightarrow>
                       (Waiting j2 (a (run_input_of s jid j m)),
                        s2\<lparr>runLog := runLog s @ [(jid, m, run_input_of s jid j m)]\<rparr>))))"
proof -
  let ?j2 = "j\<lparr>status := in_progress, startedAt := Some (clock s)\<rparr>"
  have j2: "(fst (write_status True jid in_progress j s))\<lparr>startedAt := Some (clock s)\<rparr> = ?j2"
    by (simp add: write_status_def)
  have mi: "mergedInputs (job_started s jid j) jid ?j2 x = mergedInputs s jid j x"
    by (rule mergedInputs_frame) simp_all
  have ci: "check_input (job_started s jid j) jid m = check_input s jid m" for m
    by (rule check_input_frame) simp
  have ao: "assignee_of (job_started s jid j) ?j2 = assignee_of s j"
    by (rule assignee_of_frame) simp_all
  have ri: "run_input_of (job_started s jid j) jid ?j2 m = run_input_of s jid j m" for m
    by (rule run_input_of_frame) simp_all
  show ?thesis
    unfolding begin_job_def Let_def job_started_eq
    unfolding j2 mi ci ao ri
    by (simp split: sum.splits option.splits)
qed



lemma check_output_started [simp]:
  "check_output (job_started s jid j\<lparr>runLog := r\<rparr>) jid' res = check_output s jid' res"
  by (simp add: check_output_def)

lemma execute_failed_A:
  assumes "activeJobs s jid = Some j" and "mergedInputs s jid j x = Inl e"
  shows "execute s jid x =
     (handled (errorHandlers s jid) (j\<lparr>startedAt := Some (clock s), status := failed, error := Some e\<rparr>) e,
      failed_state s jid j x e)"
  using assms
  by (simp add: execute_def execute_start_def begin_job_eq Let_def run_entries_def failed_state_def
      catch_job_True job_started_def)

lemma execute_failed_B:
  assumes "activeJobs s jid = Some j" and "mergedInputs s jid j x = Inr m" and "check_input s jid m = Some e"
  shows "execute s jid x =
     (handled (errorHandlers s jid) (j\<lparr>startedAt := Some (clock s), status := failed, error := Some e\<rparr>) e,
      failed_state s jid j x e)"
  using assms
  by (simp add: execute_def execute_start_def begin_job_eq Let_def run_entries_def failed_state_def
      catch_job_True job_started_def)

lemma execute_failed_C:
  assumes "activeJobs s jid = Some j" and "mergedInputs s jid j x = Inr m" and "check_input s jid m = None"
    and "assignee_of s j = None" and "e = TypeError ''Cannot read properties of undefined''"
  shows "execute s jid x =
     (handled (errorHandlers s jid) (j\<lparr>startedAt := Some (clock s), status := failed, error := Some e\<rparr>) e,
      failed_state s jid j x e)"
  using assms
  by (simp add: execute_def execute_start_def begin_job_eq Let_def run_entries_def failed_state_def
      catch_job_True job_started_def)

lemma execute_failed_D:
  assumes "activeJobs s jid = Some j" and "mergedInputs s jid j x = Inr m" and "check_input s jid m = None"
    and "assignee_of s j = Some a" and "a (run_input_of s jid j m) = Inl e"
  shows "execute s jid x =
     (handled (errorHandlers s jid) (j\<lparr>startedAt := Some (clock s), status := failed, error := Some e\<rparr>) e,
      failed_state s jid j x e)"
  using assms
  by (simp add: execute_def execute_start_def begin_job_eq Let_def run_entries_def failed_state_def
      finish_job_def catch_job_True job_started_def)

lemma execute_failed_E:
  assumes "activeJobs s jid = Some j" and "mergedInputs s jid j x = Inr m" and "check_input s jid m = None"
    and "assignee_of s j = Some a" and "a (run_input_of s jid j m) = Inr res"
    and "check_output s jid res = Some e"
  shows "execute s jid x =
     (handled (errorHandlers s jid) (j\<lparr>startedAt := Some (clock s), status := failed, error := Some e\<rparr>) e,
      failed_state s jid j x e)"
  using assms
  by (simp add: execute_def execute_start_def begin_job_eq Let_def run_entries_def failed_state_def
      finish_job_def catch_job_True)
     (simp add: job_started_def)

lemma execute_failed:
  assumes "activeJobs s jid = Some j" and "exec_failure s jid j x = Some e"
  shows "execute s jid x =
     (handled (errorHandlers s jid) (j\<lparr>startedAt := Some (clock s), status := failed, error := Some e\<rparr>) e,
      failed_state s jid j x e)"
proof (cases "mergedInputs s jid j x")
  case (Inl e')
  with assms show ?thesis by (simp add: exec_failure_def execute_failed_A)
next
  case (Inr m)
  note m = this
  show ?thesis
  proof (cases "check_input s jid m")
    case (Some e')
    with assms m show ?thesis by (simp add: exec_failure_def execute_failed_B)
  next
    case None
    note ci = this
    show ?thesis
    proof (cases "assignee_of s j")
      case None
      with assms m ci show ?thesis by (simp add: exec_failure_def execute_failed_C)
    next
      case (Some a)
      note a = this
      show ?thesis
      proof (cases "a (run_input_of s jid j m)")
        case (Inl e')
        with assms m ci a show ?thesis by (simp add: exec_failure_def execute_failed_D)
      next
        case (Inr res)
        with assms m ci a show ?thesis by (simp add: exec_failure_def execute_failed_E)
      qed
    qed
  qed
qed



lemma jobContexts_started_runLog [simp]:
  "jobContexts (job_started s jid j\<lparr>runLog := r\<rparr>) = jobContexts s"
  "clock (job_started s jid j\<lparr>runLog := r\<rparr>) = clock s"
  by (simp_all add: job_started_def)

lemma execute_completed:
  assumes "activeJobs s jid = Some j" and "mergedInputs s jid j x = Inr m" and "check_input s jid m = None"
    and "assignee_of s j = Some a" and "a (run_input_of s jid j m) = Inr res"
    and "check_output s jid res = None" and "jobContexts s jid = Some c"
  shows "execute s jid x =
     (Inr res,
      s\<lparr>activeJobs := (activeJobs s)(jid \<mapsto> j\<lparr>startedAt := Some (clock s), status := completed,
                                               completedAt := Some (clock s), results := res\<rparr>),
        jobContexts := (jobContexts s)(jid \<mapsto>
             spread (spread c [(''results'', res)]) [(''updatedAt'', JDate (clock s))]),
        statusLog := statusLog s @ [(jid, Some (status j), in_progress), (jid, Some in_progress, completed)],
        events := events s @ [JobStarted jid,
             JobContextUpdated jid (spread (spread c [(''results'', res)]) [(''updatedAt'', JDate (clock s))]) [''results''],
             JobCompleted jid res],
        runLog := runLog s @ [(jid, m, run_input_of s jid j m)]\<rparr>)"
  using assms
  by (simp add: execute_def execute_start_def begin_job_eq Let_def finish_job_def)
     (simp add: job_started_def write_status_def put_job_def updateJobContext_def emit_def Let_def)

lemma execute_no_context:
  assumes "activeJobs s jid = Some j" and "mergedInputs s jid j x = Inr m" and "check_input s jid m = None"
    and "assignee_of s j = Some a" and "a (run_input_of s jid j m) = Inr res"
    and "check_output s jid res = None" and "jobContexts s jid = None"
  shows "statusLog (snd (execute s jid x)) =
           statusLog s @ [(jid, Some (status j), in_progress), (jid, Some in_progress, completed),
                          (jid, Some completed, failed)]"
  using assms
  by (simp add: execute_def execute_start_def begin_job_eq Let_def finish_job_def)
     (simp add: job_started_def write_status_def put_job_def updateJobContext_def emit_def Let_def
        catch_job_True)



lemma retryJob_not_failed:
  "activeJobs s jid = Some j \<Longrightarrow> status j \<noteq> failed \<Longrightarrow>
   retryJob s jid maxRetries x = (Inl (NotInFailedState jid), s)"
  by (simp add: retryJob_def)

lemma retryJob_exhausted:
  "activeJobs s jid = Some j \<Longrightarrow> status j = failed \<Longrightarrow> maxRetries \<le> int (retries j) \<Longrightarrow>
   retryJob s jid maxRetries x =
     (Inl (MaxRetriesReached maxRetries jid),
      s\<lparr>activeJobs := (activeJobs s)(jid \<mapsto> j\<lparr>retryCount := Some (retries j)\<rparr>)\<rparr>)"
  by (simp add: retryJob_def retries_def Let_def put_job_def)

lemma retryJob_again:
  "activeJobs s jid = Some j \<Longrightarrow> status j = failed \<Longrightarrow> int (retries j) < maxRetries \<Longrightarrow>
   retryJob s jid maxRetries x = execute (retry_state s jid j maxRetries) jid x"
proof -
  assume a: "activeJobs s jid = Some j" "status j = failed" "int (retries j) < maxRetries"
  let ?j1 = "j\<lparr>retryCount := Some (retries j)\<rparr>"
  let ?j2 = "?j1\<lparr>retryCount := Some (retries j + 1)\<rparr>"
  let ?js3 = "write_status True jid assigned ?j2 (put_job True jid ?j2 (put_job True jid ?j1 s))"
  have "emit (JobRetrying jid (retries j + 1) maxRetries)
          (put_job True jid ((fst ?js3)\<lparr>error := None\<rparr>) (snd ?js3)) = retry_state s jid j maxRetries"
    using a by (intro agency.equality) (simp_all add: put_job_def write_status_def emit_def retry_state_def)
  with a show ?thesis
    by (simp add: retryJob_def Let_def retries_def [symmetric])
qed

text \<open>
  Claim C5. \<^verbatim>\<open>retryJob\<close> on a job whose status is not \<^verbatim>\<open>failed\<close> raises the
  "not in failed state" error and changes nothing; on a failed job whose retry count has
  reached \<open>maxRetries\<close> it raises the "maximum retry attempts" error; otherwise it
  increments the retry count, sets the status to \<^verbatim>\<open>assigned\<close>, clears the error and
  calls \<^verbatim>\<open>execute\<close> on the same job.
\<close>

theorem retryJob_contract:
  assumes "activeJobs s jid = Some j"
  shows "(status j \<noteq> failed \<longrightarrow> retryJob s jid maxRetries x = (Inl (NotInFailedState jid), s))
       \<and> (status j = failed \<and> maxRetries \<le> int (retries j) \<longrightarrow>
            retryJob s jid maxRetries x =
              (Inl (MaxRetriesReached maxRetries jid),
               s\<lparr>activeJobs := (activeJobs s)(jid \<mapsto> j\<lparr>retryCount := Some (retries j)\<rparr>)\<rparr>))
       \<and> (status j = failed \<and> int (retries j) < maxRetries \<longrightarrow>
            retryJob s jid maxRetries x = execute (retry_state s jid j maxRetries) jid x
            \<and> activeJobs (retry_state s jid j maxRetries) jid =
                 Some (j\<lparr>retryCount := Some (retries j + 1), status := assigned, error := None\<rparr>))"
  using assms
  by (simp add: retryJob_not_failed retryJob_exhausted retryJob_again) (simp add: retry_state_def)

lemma cleanupJob_refused:
  "\<not> (\<exists>j. activeJobs s jid = Some j \<and> (status j = completed \<or> status j = failed)) \<Longrightarrow>
   cleanupJob s jid keepResults = (False, s)"
  by (auto simp: cleanupJob_def split: option.splits)

lemma cleanupJob_done:
  "activeJobs s jid = Some j \<Longrightarrow> status j = completed \<or> status j = failed \<Longrightarrow>
   cleanupJob s jid keepResults =
     (True,
      s\<lparr>jobContexts := (jobContexts s)(jid := None),
        activeJobs := (activeJobs s)(jid := None),
        events := events s @ [JobCleaned jid keepResults],
        globalMemory :=
          (if keepResults \<and> truthy (results j)
           then snd (remember (globalMemory s) (archive_key jid)
                  (JObj [(''results'', results j), (''cleanedAt'', JDate (clock s))]))
           else globalMemory s)\<rparr>)"
  by (auto simp: cleanupJob_def Let_def emit_def archive_key_def)

text \<open>
  Claim C8, amended. \<^verbatim>\<open>cleanupJob\<close> returns true exactly when the job exists with
  status \<^verbatim>\<open>completed\<close> or \<^verbatim>\<open>failed\<close>; when it returns false the state is unchanged;
  when it returns true the job and its context are removed, and the results are archived
  through the global scope's \<^verbatim>\<open>remember\<close> under \<^verbatim>\<open>job_<id>_results\<close> when
  \<open>keepResults\<close> is set and the results are truthy.
\<close>

theorem cleanupJob_contract:
  "(fst (cleanupJob s jid keepResults) \<longleftrightarrow>
      (\<exists>j. activeJobs s jid = Some j \<and> (status j = completed \<or> status j = failed)))
   \<and> (\<not> fst (cleanupJob s jid keepResults) \<longrightarrow> snd (cleanupJob s jid keepResults) = s)
   \<and> (\<forall>j. activeJobs s jid = Some j \<and> (status j = completed \<or> status j = failed) \<longrightarrow>
         snd (cleanupJob s jid keepResults) =
           s\<lparr>jobContexts := (jobContexts s)(jid := None),
             activeJobs := (activeJobs s)(jid := None),
             events := events s @ [JobCleaned jid keepResults],
             globalMemory :=
               (if keepResults \<and> truthy (results j)
                then snd (remember (globalMemory s) (archive_key jid)
                       (JObj [(''results'', results j), (''cleanedAt'', JDate (clock s))]))
                else globalMemory s)\<rparr>)"
proof (cases "\<exists>j. activeJobs s jid = Some j \<and> (status j = completed \<or> status j = failed)")
  case True
  then obtain j where j: "activeJobs s jid = Some j" "status j = completed \<or> status j = failed"
    by (elim exE conjE)
  show ?thesis
    using j by (simp add: cleanupJob_done [OF j])
next
  case False
  then show ?thesis
    by (auto simp: cleanupJob_refused [OF False])
qed

lemma scope_of_workflows [simp]: "scope_of (s\<lparr>workflows := x\<rparr>) a = scope_of s a"
  by (simp add: scope_of_def)

text \<open>
  Claim C10. \<^verbatim>\<open>executeWorkflow\<close> with a workflow id whose memory scope
  \<^verbatim>\<open>workflow:<id>\<close> already exists throws "Memory scope ... already exists" before any
  step runs: the state differs from the one before the call only by the fresh workflow
  record, in status \<^verbatim>\<open>in_progress\<close> with no error, and by the \<^verbatim>\<open>workflow:started\<close>
  event; there is no \<^verbatim>\<open>workflow:failed\<close> event.
\<close>

theorem workflow_id_reuse:
  assumes "scope_of s (scope_name w) = Some m"
  shows "executeWorkflow order s workflowDefinition w initialData =
     (Inl (ScopeExists (scope_name w)),
      s\<lparr>workflows := (workflows s)(w \<mapsto>
           \<lparr>wid = w, wdefinition = workflowDefinition, wstatus = wf_in_progress,
            wstartedAt = clock s, currentStep = 0, wresults = [], werror = None,
            wcompletedAt = None\<rparr>),
        events := events s @ [WorkflowStarted w (length workflowDefinition)]\<rparr>,
      [])"
proof -
  have "scope_of (emit (WorkflowStarted w (length workflowDefinition))
           (s\<lparr>workflows := (workflows s)(w \<mapsto>
           \<lparr>wid = w, wdefinition = workflowDefinition, wstatus = wf_in_progress,
            wstartedAt = clock s, currentStep = 0, wresults = [], werror = None,
            wcompletedAt = None\<rparr>)\<rparr>)) (scope_name w) = Some m"
    using assms by simp
  then show ?thesis
    by (simp add: executeWorkflow_def workflow_setup_def Let_def createMemoryScope_def)
       (simp add: emit_def)
qed



section \<open>Workflows: what a run leaves alone, and how it aborts\<close>

lemma wf_partD: "wf_part s' = wf_part s \<Longrightarrow> workflows s' = workflows s"
  by (simp add: wf_part_def)

lemma has_wf_wf_part: "wf_part s' = wf_part s \<Longrightarrow> has_wf s' w = has_wf s w"
  by (simp add: has_wf_def wf_part_def)

lemma fixed_upd_workflow [simp]: "fixed (upd_workflow w f s) = fixed s"
  by (simp add: upd_workflow_def fixed_def split: option.splits)

lemma has_wf_upd_workflow [simp]: "has_wf (upd_workflow w' f s) w = has_wf s w"
  by (simp add: upd_workflow_def has_wf_def split: option.splits)

lemma fixed_remember_in [simp]: "fixed (remember_in a k v s) = fixed s"
  by (simp add: remember_in_def split: option.splits)

lemma workflows_put_scope [simp]: "workflows (put_scope a m s) = workflows s"
  by (simp add: put_scope_def)

lemma has_wf_remember_in [simp]: "has_wf (remember_in a k v s) w = has_wf s w"
  by (simp add: remember_in_def has_wf_def split: option.splits)

lemma has_wf_emit [simp]: "has_wf (emit e s) w = has_wf s w"
  by (simp add: has_wf_def emit_def)

lemma ensure_brief_frames [simp]:
  "wf_part (ensure_brief s jid b) = wf_part s" "fixed (ensure_brief s jid b) = fixed s"
  by (simp_all add: ensure_brief_def split: option.splits)

lemma record_result_frames [simp]:
  "fixed (snd (record_result kind s w i jid r)) = fixed s"
  "has_wf (snd (record_result kind s w i jid r)) w' = has_wf s w'"
  by (simp_all add: record_result_def Let_def split: option.splits)

lemma single_step_frames:
  "fixed (snd (single_step kind s w i st d)) = fixed s
   \<and> has_wf (snd (single_step kind s w i st d)) w' = has_wf s w'"
proof -
  let ?jid = "as_key (sjobId st)"
  let ?s1 = "ensure_brief s ?jid (spread (spread_of (sbrief st)) (step_tags kind w i))"
  obtain r s2 where aj: "assignJob ?s1 ?jid (as_key (sassigneeId st)) (sassigneeType st) = (r, s2)"
    by (cases "assignJob ?s1 ?jid (as_key (sassigneeId st)) (sassigneeType st)")
  have "s2 = snd (assignJob ?s1 ?jid (as_key (sassigneeId st)) (sassigneeType st))"
    using aj by simp
  then have s2: "wf_part s2 = wf_part s" "fixed s2 = fixed s"
    by simp_all
  have h2: "has_wf s2 w' = has_wf s w'"
    by (rule has_wf_wf_part [OF s2(1)])
  show ?thesis
  proof (cases r)
    case (Inl e)
    with aj s2 h2 show ?thesis by (simp add: single_step_def Let_def)
  next
    case (Inr j)
    let ?x = "step_inputs kind st w i d"
    obtain r3 s3 where ex: "execute s2 ?jid ?x = (r3, s3)" by (cases "execute s2 ?jid ?x")
    have s3: "wf_part s3 = wf_part s" "fixed s3 = fixed s"
      using wf_part_execute [of s2 ?jid ?x] fixed_execute [of s2 ?jid ?x] ex s2 by simp_all
    have h3: "has_wf s3 w' = has_wf s w'"
      by (rule has_wf_wf_part [OF s3(1)])
    from Inr aj ex s3 h3 show ?thesis
      by (cases r3) (simp_all add: single_step_def Let_def)
  qed
qed

lemma store_results_frames:
  "fixed (snd (store_results s w i ps c)) = fixed s
   \<and> has_wf (snd (store_results s w i ps c)) w' = has_wf s w'"
proof (induction ps arbitrary: s c)
  case Nil
  then show ?case by simp
next
  case (Cons p ps)
  let ?s2 = "upd_workflow w (\<lambda>rec. rec\<lparr>wresults := set_prop (fst p) (snd p) (wresults rec)\<rparr>)
     (remember_in (scope_name w) (step_file i (''_job_'' @ fst p @ ''_results'')) (snd p) s)"
  have s2: "fixed ?s2 = fixed s" "has_wf ?s2 w' = has_wf s w'" by simp_all
  show ?case
  proof (cases "activeJobs ?s2 (fst p)")
    case None
    with s2 show ?thesis by (simp add: Let_def)
  next
    case (Some j)
    with s2 Cons.IH [of ?s2 "set_prop (fst p) (snd p) c"] show ?thesis by (simp add: Let_def)
  qed
qed

lemma parallel_step_frames:
  "fixed (fst (snd (parallel_step order s w i st jids d))) = fixed s
   \<and> has_wf (fst (snd (parallel_step order s w i st jids d))) w' = has_wf s w'"
proof -
  obtain r bs s1 where sb: "start_branches s w i st d 0 jids [] = (r, bs, s1)"
    by (cases "start_branches s w i st d 0 jids []")
  have s1: "wf_part s1 = wf_part s" "fixed s1 = fixed s"
    using start_branches_frames [of s w i st d 0 jids "[]"] sb by simp_all
  have h1: "has_wf s1 w' = has_wf s w'" by (rule has_wf_wf_part [OF s1(1)])
  show ?thesis
  proof (cases r)
    case (Some e)
    with sb s1 h1 show ?thesis by (simp add: parallel_step_def)
  next
    case None
    let ?marked = "mark_attached bs"
    let ?arr = "map (\<lambda>p. ?marked ! p) (schedule order (length ?marked))"
    obtain r2 s2 rest where sa: "settle_all s1 ?arr [] = (r2, s2, rest)"
      by (cases "settle_all s1 ?arr []")
    have s2: "wf_part s2 = wf_part s" "fixed s2 = fixed s"
      using settle_all_frames [of s1 ?arr "[]"] sa s1 by simp_all
    have h2: "has_wf s2 w' = has_wf s w'" by (rule has_wf_wf_part [OF s2(1)])
    show ?thesis
    proof (cases r2)
      case (Inl e)
      with None sb sa s2 h2 show ?thesis by (simp add: parallel_step_def Let_def)
    next
      case (Inr vals)
      let ?ps = "map (\<lambda>b. (fst (snd b), case map_of vals (fst b) of None \<Rightarrow> JUndef | Some v \<Rightarrow> v)) ?marked"
      obtain r3 s3 where sr: "store_results s2 w i ?ps [] = (r3, s3)"
        by (cases "store_results s2 w i ?ps []")
      have s3: "fixed s3 = fixed s" "has_wf s3 w' = has_wf s w'"
        using store_results_frames [of s2 w i ?ps "[]" w'] sr s2 h2 by simp_all
      from None sb sa Inr sr s3 show ?thesis
        by (cases r3) (simp_all add: parallel_step_def Let_def)
    qed
  qed
qed

lemma do_step_frames:
  "fixed (fst (snd (do_step order s w i st d))) = fixed s
   \<and> has_wf (fst (snd (do_step order s w i st d))) w' = has_wf s w'"
proof -
  let ?ty = "(case stype st of None \<Rightarrow> ''sequential'' | Some t \<Rightarrow> t)"
  show ?thesis
  proof (cases "?ty = ''parallel'' \<and> (\<exists>jids. sjobId st = Many jids)")
    case True
    then obtain jids where "sjobId st = Many jids" and "?ty = ''parallel''" by (elim conjE exE)
    then show ?thesis
      using parallel_step_frames [of order s w i st jids d w'] by (simp add: do_step_def Let_def)
  next
    case False
    then have ds: "do_step order s w i st d =
             (if ?ty = ''conditional'' then
               (if (case condition st of
                      None \<Rightarrow> True
                    | Some f \<Rightarrow> f d
                        (case scope_of s (scope_name w) of None \<Rightarrow> new_memory | Some m \<Rightarrow> m))
                then (let r = single_step ConditionalStep s w i st d in (fst r, snd r, []))
                else (Inr d,
                      emit (WorkflowStepSkipped w i)
                        (remember_in (scope_name w) (step_file i ''_skipped'') (JBool True) s),
                      []))
             else (let r = single_step SequentialStep s w i st d in (fst r, snd r, [])))"
      by (auto simp: do_step_def Let_def split: oom.splits bool.splits)
    show ?thesis
      unfolding ds
      using single_step_frames [of ConditionalStep s w i st d w']
        single_step_frames [of SequentialStep s w i st d w']
      by (simp add: Let_def)
  qed
qed

lemma run_steps_frames:
  "fixed (fst (snd (run_steps order s w i sts d))) = fixed s
   \<and> has_wf (fst (snd (run_steps order s w i sts d))) w' = has_wf s w'"
proof (induction sts arbitrary: s i d)
  case Nil
  then show ?case by simp
next
  case (Cons st sts)
  let ?s1 = "emit (WorkflowStep w i (sjobId st) (sassigneeId st) (sassigneeType st)
                       (case stype st of None \<Rightarrow> ''sequential'' | Some t \<Rightarrow> t))
                 (upd_workflow w (\<lambda>rec. rec\<lparr>currentStep := i\<rparr>) s)"
  obtain r s2 fl where ds: "do_step (order i) ?s1 w i st d = (r, s2, fl)"
    by (cases "do_step (order i) ?s1 w i st d")
  have s2: "fixed s2 = fixed s" "has_wf s2 w' = has_wf s w'"
    using do_step_frames [of "order i" ?s1 w i st d w'] ds by simp_all
  show ?case
  proof (cases r)
    case (Inl e)
    with ds s2 show ?thesis by (simp add: Let_def)
  next
    case (Inr v)
    with ds s2 Cons.IH [of s2 "i + 1" v] show ?thesis by (simp add: Let_def)
  qed
qed

lemma fold_remember_in_frames:
  "fixed (fold (\<lambda>p. remember_in a (fst p) (snd p)) ps s) = fixed s
   \<and> has_wf (fold (\<lambda>p. remember_in a (fst p) (snd p)) ps s) w = has_wf s w"
  by (induction ps arbitrary: s) simp_all

lemma workflow_setup_ok:
  assumes "fst (workflow_setup s wfd w init) = None"
  shows "has_wf (snd (workflow_setup s wfd w init)) w
       \<and> fixed (snd (workflow_setup s wfd w init)) = fixed s"
proof -
  let ?rec = "\<lparr>wid = w, wdefinition = wfd, wstatus = wf_in_progress,
                 wstartedAt = clock s, currentStep = 0, wresults = [], werror = None,
                 wcompletedAt = None\<rparr>"
  let ?s1 = "emit (WorkflowStarted w (length wfd)) (s\<lparr>workflows := (workflows s)(w \<mapsto> ?rec)\<rparr>)"
  have s1: "has_wf ?s1 w" "fixed ?s1 = fixed s"
    by (simp_all add: has_wf_def emit_def fixed_def)
  show ?thesis
  proof (cases "scope_of ?s1 (scope_name w)")
    case (Some m)
    with assms show ?thesis by (simp add: workflow_setup_def Let_def createMemoryScope_def)
  next
    case None
    let ?s2 = "put_scope (scope_name w) new_memory ?s1"
    have s2: "has_wf ?s2 w" "fixed ?s2 = fixed s"
      using s1 by (simp_all add: has_wf_def)
    have "snd (workflow_setup s wfd w init)
            = fold (\<lambda>p. remember_in (scope_name w) (fst p) (snd p)) init ?s2"
      using None by (simp add: workflow_setup_def Let_def createMemoryScope_def)
    with s2 fold_remember_in_frames [of "scope_name w" init ?s2 w] show ?thesis by simp
  qed
qed

lemma fail_workflow_eq:
  assumes "workflows s w = Some rec"
  shows "fail_workflow s w e =
     (case workflowErrorHandlers s w of
        None \<Rightarrow> Inr (WfFailed w e (currentStep rec) (wresults rec))
      | Some h \<Rightarrow>
          (case h e (rec\<lparr>wstatus := wf_failed, werror := Some e\<rparr>) of
             Inr v \<Rightarrow> Inr (WfHandled v)
           | Inl he \<Rightarrow> Inr (WfFailed w e (currentStep rec) (wresults rec))),
      s\<lparr>workflows := (workflows s)(w \<mapsto> rec\<lparr>wstatus := wf_failed, werror := Some e\<rparr>),
        events := events s @ [WorkflowFailed w e (currentStep rec)]\<rparr>)"
  using assms
  by (simp add: fail_workflow_def Let_def emit_def split: option.splits sum.splits)

lemma fixedD:
  assumes "fixed s' = fixed s"
  shows "agents s' = agents s" and "team s' = team s" and "errorHandlers s' = errorHandlers s"
    and "workflowErrorHandlers s' = workflowErrorHandlers s" and "jobSchemas s' = jobSchemas s"
    and "clock s' = clock s"
  using assms by (simp_all add: fixed_def)

lemma workflow_abort:
  assumes su: "fst (workflow_setup s wfd w init) = None"
    and rs: "fst (run_steps order (snd (workflow_setup s wfd w init)) w 0 wfd (JObj init)) = Inl e"
  shows "\<exists>rec. workflows (fst (snd (executeWorkflow order s wfd w init))) w = Some rec
           \<and> wstatus rec = wf_failed \<and> werror rec = Some e
           \<and> fst (executeWorkflow order s wfd w init) =
                (case workflowErrorHandlers s w of
                   None \<Rightarrow> Inr (WfFailed w e (currentStep rec) (wresults rec))
                 | Some h \<Rightarrow>
                     (case h e rec of
                        Inr v \<Rightarrow> Inr (WfHandled v)
                      | Inl he \<Rightarrow> Inr (WfFailed w e (currentStep rec) (wresults rec))))"
proof -
  obtain u where su': "workflow_setup s wfd w init = (None, u)"
    using su by (cases "workflow_setup s wfd w init") simp
  obtain r s2 fl where run: "run_steps order u w 0 wfd (JObj init) = (r, s2, fl)"
    by (cases "run_steps order u w 0 wfd (JObj init)")
  with rs su' have r: "r = Inl e" by simp
  from workflow_setup_ok [OF su] su' have s1: "has_wf u w" "fixed u = fixed s" by simp_all
  from run_steps_frames [of order u w 0 wfd "JObj init" w] run s1
  have s2: "has_wf s2 w" "fixed s2 = fixed s" by simp_all
  from s2(1) obtain rec where rec: "workflows s2 w = Some rec" by (auto simp: has_wf_def)
  have h: "workflowErrorHandlers s2 w = workflowErrorHandlers s w"
    using fixedD(4) [OF s2(2)] by simp
  have ex: "executeWorkflow order s wfd w init =
          (fst (fail_workflow s2 w e), snd (fail_workflow s2 w e), fl)"
    using su' run r by (simp add: executeWorkflow_def Let_def)
  show ?thesis
    unfolding ex
    by (rule exI [of _ "rec\<lparr>wstatus := wf_failed, werror := Some e\<rparr>"])
       (simp add: fail_workflow_eq [OF rec] h split: option.splits sum.splits)
qed

lemmas job_evals = assignJob_def createJobContext_def createBrief_def emit_def spread_def Let_def
  execute_def execute_start_def begin_job_def finish_job_def catch_job_def write_status_def put_job_def
  mergedInputs_def extractInputsFromBrief_def topic_of_def copy_if_truthy_def lookup_def
  check_input_def check_output_def assignee_of_def run_input_of_def updateJobContext_def
  formatBriefAsPrompt_def section_if_def js_or_def

lemmas wf_evals = workflow_setup_def createMemoryScope_def scope_of_def put_scope_def scope_name_def
  new_memory_def do_step_def single_step_def ensure_brief_def step_tags_def step_inputs_def
  record_result_def remember_in_def upd_workflow_def remember_def base_remember_def step_file_def
  fail_workflow_def complete_workflow_def executeWorkflow_def

lemmas fixture_defs = office_def new_agency_def agent_rejecting_def agent_returning_def plain_step_def
  job_assigned_def rescued_def rescued_office_def first_job_def

lemma execute_fails_job:
  assumes j: "activeJobs s jid = Some j" and m: "mergedInputs s jid j x = Inr m"
    and f: "check_input s jid m = Some e
       \<or> (check_input s jid m = None \<and> assignee_of s j = Some a
           \<and> (a (run_input_of s jid j m) = Inl e
               \<or> (\<exists>res. a (run_input_of s jid j m) = Inr res \<and> check_output s jid res = Some e)))"
  shows "\<exists>j'. activeJobs (snd (execute s jid x)) jid = Some j' \<and> status j' = failed
           \<and> error j' = Some e
           \<and> fst (execute s jid x) =
                (case errorHandlers s jid of
                   None \<Rightarrow> Inl e
                 | Some h \<Rightarrow> (case h e j' of Inr v \<Rightarrow> Inr v | Inl he \<Rightarrow> Inl e))"
proof -
  from m f have "exec_failure s jid j x = Some e"
    by (auto simp: exec_failure_def)
  from execute_failed [OF j this] show ?thesis
    by (intro exI [of _ "j\<lparr>startedAt := Some (clock s), status := failed, error := Some e\<rparr>"])
       (simp add: failed_state_def handled_def)
qed

text \<open>
  Claim C2, amended. When a call of \<^verbatim>\<open>execute\<close> fails in the input validation, in the
  assignee's run or in the output validation, the job is left with status \<^verbatim>\<open>failed\<close>
  and its error set, and the call returns what the per-job handler returns if there is one
  and it returns, and throws the error otherwise. When the set-up of a workflow has
  succeeded and its steps abort with an error, the workflow record is left with status
  \<^verbatim>\<open>failed\<close> and its error set, and \<^verbatim>\<open>executeWorkflow\<close> returns what the
  workflow-level handler returns if there is one and it returns, and the failure record
  otherwise. No handler resets the status. The restriction to a set-up that has succeeded
  is needed: a call that throws in its set-up, before the \<^verbatim>\<open>try\<close>, aborts and leaves
  the record \<^verbatim>\<open>in_progress\<close> with no error, as the example after the theorem shows.
\<close>

theorem failure_leaves_failed:
  "(activeJobs s jid = Some j \<and> mergedInputs s jid j x = Inr m
      \<and> (check_input s jid m = Some e
          \<or> (check_input s jid m = None \<and> assignee_of s j = Some a
              \<and> (a (run_input_of s jid j m) = Inl e
                  \<or> (\<exists>res. a (run_input_of s jid j m) = Inr res \<and> check_output s jid res = Some e))))
    \<longrightarrow> (\<exists>j'. activeJobs (snd (execute s jid x)) jid = Some j' \<and> status j' = failed
           \<and> error j' = Some e
           \<and> fst (execute s jid x) =
                (case errorHandlers s jid of
                   None \<Rightarrow> Inl e
                 | Some h \<Rightarrow> (case h e j' of Inr v \<Rightarrow> Inr v | Inl he \<Rightarrow> Inl e))))
   \<and> (fst (workflow_setup s0 wfd w init) = None
       \<and> fst (run_steps order (snd (workflow_setup s0 wfd w init)) w 0 wfd (JObj init)) = Inl e'
    \<longrightarrow> (\<exists>rec. workflows (fst (snd (executeWorkflow order s0 wfd w init))) w = Some rec
           \<and> wstatus rec = wf_failed \<and> werror rec = Some e'
           \<and> fst (executeWorkflow order s0 wfd w init) =
                (case workflowErrorHandlers s0 w of
                   None \<Rightarrow> Inr (WfFailed w e' (currentStep rec) (wresults rec))
                 | Some h \<Rightarrow>
                     (case h e' rec of
                        Inr v \<Rightarrow> Inr (WfHandled v)
                      | Inl he \<Rightarrow> Inr (WfFailed w e' (currentStep rec) (wresults rec))))))"
  using execute_fails_job [of s jid j x m e a] workflow_abort [of s0 wfd w init order e']
  by (intro conjI impI) (elim conjE, simp)+

theorem failure_leaves_failed_witness:
  "activeJobs rescued ''j1'' = Some (first_job assigned JNull)
   \<and> mergedInputs rescued ''j1'' (first_job assigned JNull) []
        = Inr [(''createdAt'', JDate 0), (''updatedAt'', JDate 0)]
   \<and> check_input rescued ''j1'' [(''createdAt'', JDate 0), (''updatedAt'', JDate 0)] = None
   \<and> assignee_of rescued (first_job assigned JNull) = Some (agent_rejecting ''boom'')
   \<and> agent_rejecting ''boom'' (run_input_of rescued ''j1'' (first_job assigned JNull)
          [(''createdAt'', JDate 0), (''updatedAt'', JDate 0)]) = Inl (RunFailed ''boom'')
   \<and> (\<exists>j'. activeJobs (snd (execute rescued ''j1'' [])) ''j1'' = Some j' \<and> status j' = failed
           \<and> error j' = Some (RunFailed ''boom'')
           \<and> fst (execute rescued ''j1'' []) = Inr (JStr ''fallback''))
   \<and> fst (workflow_setup rescued_office [plain_step ''j1'' ''a1''] ''w1'' []) = None
   \<and> fst (run_steps (\<lambda>i. []) (snd (workflow_setup rescued_office [plain_step ''j1'' ''a1''] ''w1'' []))
           ''w1'' 0 [plain_step ''j1'' ''a1''] (JObj [])) = Inl (RunFailed ''boom'')
   \<and> (\<exists>rec. workflows (fst (snd (executeWorkflow (\<lambda>i. []) rescued_office [plain_step ''j1'' ''a1''] ''w1'' []))) ''w1'' = Some rec
           \<and> wstatus rec = wf_failed \<and> werror rec = Some (RunFailed ''boom'')
           \<and> fst (executeWorkflow (\<lambda>i. []) rescued_office [plain_step ''j1'' ''a1''] ''w1'' [])
                = Inr (WfHandled (JStr ''recovered'')))"
proof -
  have h1: "activeJobs rescued ''j1'' = Some (first_job assigned JNull)"
    by (simp add: fixture_defs job_evals)
  have h2: "mergedInputs rescued ''j1'' (first_job assigned JNull) []
        = Inr [(''createdAt'', JDate 0), (''updatedAt'', JDate 0)]"
    by (simp add: fixture_defs job_evals)
  have h3: "check_input rescued ''j1'' [(''createdAt'', JDate 0), (''updatedAt'', JDate 0)] = None"
    by (simp add: fixture_defs job_evals)
  have h4: "assignee_of rescued (first_job assigned JNull) = Some (agent_rejecting ''boom'')"
    by (simp add: fixture_defs job_evals)
  have h5: "agent_rejecting ''boom'' (run_input_of rescued ''j1'' (first_job assigned JNull)
          [(''createdAt'', JDate 0), (''updatedAt'', JDate 0)]) = Inl (RunFailed ''boom'')"
    by (simp add: agent_rejecting_def)
  have h6: "errorHandlers rescued ''j1'' = Some (\<lambda>e j. Inr (JStr ''fallback''))"
    by (simp add: fixture_defs)
  have w1: "fst (workflow_setup rescued_office [plain_step ''j1'' ''a1''] ''w1'' []) = None"
    by (simp add: fixture_defs job_evals wf_evals)
  have w2: "fst (run_steps (\<lambda>i. []) (snd (workflow_setup rescued_office [plain_step ''j1'' ''a1''] ''w1'' []))
           ''w1'' 0 [plain_step ''j1'' ''a1''] (JObj [])) = Inl (RunFailed ''boom'')"
    by (simp add: fixture_defs job_evals wf_evals show_nat.simps digit_def)
  have w3: "workflowErrorHandlers rescued_office ''w1'' = Some (\<lambda>e r. Inr (JStr ''recovered''))"
    by (simp add: fixture_defs job_evals)
  note t = failure_leaves_failed [of rescued "''j1''" "first_job assigned JNull" "[]"
      "[(''createdAt'', JDate 0), (''updatedAt'', JDate 0)]" "RunFailed ''boom''"
      "agent_rejecting ''boom''" rescued_office "[plain_step ''j1'' ''a1'']" "''w1''" "[]"
      "\<lambda>i. []" "RunFailed ''boom''"]
  from t h1 h2 h3 h4 h5 have a: "\<exists>j'. activeJobs (snd (execute rescued ''j1'' [])) ''j1'' = Some j' \<and> status j' = failed
           \<and> error j' = Some (RunFailed ''boom'')
           \<and> fst (execute rescued ''j1'' []) = Inr (JStr ''fallback'')"
    by (simp add: h6)
  from t w1 w2 have b: "\<exists>rec. workflows (fst (snd (executeWorkflow (\<lambda>i. []) rescued_office [plain_step ''j1'' ''a1''] ''w1'' []))) ''w1'' = Some rec
           \<and> wstatus rec = wf_failed \<and> werror rec = Some (RunFailed ''boom'')
           \<and> fst (executeWorkflow (\<lambda>i. []) rescued_office [plain_step ''j1'' ''a1''] ''w1'' [])
                = Inr (WfHandled (JStr ''recovered''))"
    by (simp add: w3)
  from h1 h2 h3 h4 h5 a w1 w2 b show ?thesis by (intro conjI)
qed

lemmas fixture_defs2 = fixture_defs with_job_def job_done_def ran_once_def

text \<open>
  A call of \<^verbatim>\<open>executeWorkflow\<close> that aborts and leaves its record neither failed nor
  with an error: the workflow id has a memory scope already.
\<close>

theorem failure_leaves_failed_counterexample:
  "fst (executeWorkflow (\<lambda>i. []) (scope_taken ''w2'') [plain_step ''j1'' ''a1''] ''w2'' [])
        = Inl (ScopeExists ''workflow:w2'')
   \<and> map_option wstatus (workflows
         (fst (snd (executeWorkflow (\<lambda>i. []) (scope_taken ''w2'') [plain_step ''j1'' ''a1''] ''w2'' []))) ''w2'')
        = Some wf_in_progress
   \<and> map_option werror (workflows
         (fst (snd (executeWorkflow (\<lambda>i. []) (scope_taken ''w2'') [plain_step ''j1'' ''a1''] ''w2'' []))) ''w2'')
        = Some None"
  by (simp add: scope_taken_def fixture_defs job_evals wf_evals)

theorem retryJob_contract_witness:
  "activeJobs (with_job completed JNull) ''j1'' = Some (first_job completed JNull)
   \<and> status (first_job completed JNull) \<noteq> failed
   \<and> retryJob (with_job completed JNull) ''j1'' 3 [] = (Inl (NotInFailedState ''j1''), with_job completed JNull)
   \<and> activeJobs (with_job failed JNull) ''j1'' = Some (first_job failed JNull)
   \<and> status (first_job failed JNull) = failed
   \<and> (0::int) \<le> int (retries (first_job failed JNull))
   \<and> fst (retryJob (with_job failed JNull) ''j1'' 0 []) = Inl (MaxRetriesReached 0 ''j1'')
   \<and> int (retries (first_job failed JNull)) < 3
   \<and> retryJob (with_job failed JNull) ''j1'' 3 []
        = execute (retry_state (with_job failed JNull) ''j1'' (first_job failed JNull) 3) ''j1'' []
   \<and> fst (retryJob (with_job failed JNull) ''j1'' 3 []) = Inr JNull"
proof -
  have a1: "activeJobs (with_job completed JNull) ''j1'' = Some (first_job completed JNull)"
    by (simp add: with_job_def)
  have a2: "status (first_job completed JNull) \<noteq> failed"
    by (simp add: first_job_def)
  have b1: "activeJobs (with_job failed JNull) ''j1'' = Some (first_job failed JNull)"
    by (simp add: with_job_def)
  have b2: "status (first_job failed JNull) = failed"
    by (simp add: first_job_def)
  have b3: "retries (first_job failed JNull) = 0"
    by (simp add: first_job_def retries_def)
  from retryJob_contract [OF a1, of 3 "[]"] a2
  have c1: "retryJob (with_job completed JNull) ''j1'' 3 [] = (Inl (NotInFailedState ''j1''), with_job completed JNull)"
    by simp
  from retryJob_contract [OF b1, of 0 "[]"] b2 b3
  have c2: "fst (retryJob (with_job failed JNull) ''j1'' 0 []) = Inl (MaxRetriesReached 0 ''j1'')"
    by simp
  from retryJob_contract [OF b1, of 3 "[]"] b2 b3
  have c3: "retryJob (with_job failed JNull) ''j1'' 3 []
        = execute (retry_state (with_job failed JNull) ''j1'' (first_job failed JNull) 3) ''j1'' []"
    by simp
  have c4: "fst (execute (retry_state (with_job failed JNull) ''j1'' (first_job failed JNull) 3) ''j1'' []) = Inr JNull"
    by (simp add: retry_state_def retries_def fixture_defs2 job_evals)
  from a1 a2 b1 b2 b3 c1 c2 c3 c4 show ?thesis by simp
qed

theorem cleanupJob_contract_witness:
  "fst (cleanupJob (with_job completed (JStr ''ok'')) ''j1'' True)
   \<and> activeJobs (snd (cleanupJob (with_job completed (JStr ''ok'')) ''j1'' True)) ''j1'' = None
   \<and> jobContexts (snd (cleanupJob (with_job completed (JStr ''ok'')) ''j1'' True)) ''j1'' = None
   \<and> recall (globalMemory (snd (cleanupJob (with_job completed (JStr ''ok'')) ''j1'' True))) (archive_key ''j1'')
        = JObj [(''results'', JStr ''ok''), (''cleanedAt'', JDate 0)]
   \<and> \<not> fst (cleanupJob (with_job assigned JNull) ''j1'' True)
   \<and> snd (cleanupJob (with_job assigned JNull) ''j1'' True) = with_job assigned JNull"
proof -
  have a1: "activeJobs (with_job completed (JStr ''ok'')) ''j1'' = Some (first_job completed (JStr ''ok''))"
    by (simp add: with_job_def)
  have a2: "status (first_job completed (JStr ''ok'')) = completed"
    "results (first_job completed (JStr ''ok'')) = JStr ''ok''"
    by (simp_all add: first_job_def)
  have b1: "activeJobs (with_job assigned JNull) ''j1'' = Some (first_job assigned JNull)"
    by (simp add: with_job_def)
  have b2: "status (first_job assigned JNull) = assigned"
    by (simp add: first_job_def)
  note t1 = cleanupJob_contract [of "with_job completed (JStr ''ok'')" "''j1''" True]
  note t2 = cleanupJob_contract [of "with_job assigned JNull" "''j1''" True]
  from t1 a1 a2 have c1: "fst (cleanupJob (with_job completed (JStr ''ok'')) ''j1'' True)"
    by simp
  from t1 a1 a2 have c2: "snd (cleanupJob (with_job completed (JStr ''ok'')) ''j1'' True) =
           (with_job completed (JStr ''ok''))\<lparr>jobContexts := (jobContexts (with_job completed (JStr ''ok'')))(''j1'' := None),
             activeJobs := (activeJobs (with_job completed (JStr ''ok'')))(''j1'' := None),
             events := events (with_job completed (JStr ''ok'')) @ [JobCleaned ''j1'' True],
             globalMemory := snd (remember (globalMemory (with_job completed (JStr ''ok''))) (archive_key ''j1'')
                       (JObj [(''results'', JStr ''ok''), (''cleanedAt'', JDate (clock (with_job completed (JStr ''ok''))))]))\<rparr>"
    by simp
  have c3: "recall (globalMemory (snd (cleanupJob (with_job completed (JStr ''ok'')) ''j1'' True))) (archive_key ''j1'')
        = JObj [(''results'', JStr ''ok''), (''cleanedAt'', JDate 0)]"
    unfolding c2
    by (simp add: fixture_defs2 createBrief_def emit_def Let_def remember_def base_remember_def
        new_memory_def recall_def lookup_def archive_key_def)
  from t2 b1 b2 have c4: "\<not> fst (cleanupJob (with_job assigned JNull) ''j1'' True)"
    by simp
  with t2 have c5: "snd (cleanupJob (with_job assigned JNull) ''j1'' True) = with_job assigned JNull"
    by simp
  show ?thesis
    using c1 c3 c4 c5 unfolding c2 by simp
qed

theorem cleanupJob_counterexample:
  "map_option status (activeJobs (job_done (agent_returning (JStr ''''))) ''j1'') = Some completed
   \<and> map_option results (activeJobs (job_done (agent_returning (JStr ''''))) ''j1'') = Some (JStr '''')
   \<and> fst (cleanupJob (job_done (agent_returning (JStr ''''))) ''j1'' True)
   \<and> recall (globalMemory (snd (cleanupJob (job_done (agent_returning (JStr ''''))) ''j1'' True)))
        (archive_key ''j1'') = JUndef"
  by (simp add: fixture_defs2 job_evals cleanupJob_def new_memory_def recall_def)

theorem workflow_id_reuse_witness:
  "scope_of ran_once (scope_name ''w1'')
      = Some \<lparr>keyValueStore = [(''step_0_results'', JNull)], wrappers = []\<rparr>
   \<and> map_option wstatus (workflows ran_once ''w1'') = Some wf_completed
   \<and> fst (executeWorkflow (\<lambda>i. []) ran_once [plain_step ''j1'' ''a1''] ''w1'' [])
        = Inl (ScopeExists ''workflow:w1'')
   \<and> map_option wstatus (workflows
         (fst (snd (executeWorkflow (\<lambda>i. []) ran_once [plain_step ''j1'' ''a1''] ''w1'' []))) ''w1'')
        = Some wf_in_progress"
proof -
  have h: "scope_of ran_once (scope_name ''w1'')
      = Some \<lparr>keyValueStore = [(''step_0_results'', JNull)], wrappers = []\<rparr>"
    by (simp add: fixture_defs2 job_evals wf_evals show_nat.simps digit_def)
  have h2: "map_option wstatus (workflows ran_once ''w1'') = Some wf_completed"
    by (simp add: fixture_defs2 job_evals wf_evals show_nat.simps digit_def)
  from workflow_id_reuse [OF h, of "\<lambda>i. []" "[plain_step ''j1'' ''a1'']" "[]"] h h2
  show ?thesis by (simp add: scope_name_def)
qed

section \<open>The status of a job over a sequence of calls\<close>

lemma exec_failure_None:
  assumes "exec_failure s jid j x = None"
  shows "\<exists>m a res. mergedInputs s jid j x = Inr m \<and> check_input s jid m = None
           \<and> assignee_of s j = Some a \<and> a (run_input_of s jid j m) = Inr res
           \<and> check_output s jid res = None"
  using assms by (auto simp: exec_failure_def split: sum.splits option.splits)

lemma execute_edges:
  assumes j: "activeJobs s jid = Some j" and c: "jobContexts s jid \<noteq> None"
  shows "\<exists>st. (st = completed \<or> st = failed)
           \<and> statusLog (snd (execute s jid x)) =
                statusLog s @ [(jid, Some (status j), in_progress), (jid, Some in_progress, st)]
           \<and> (\<forall>k. (activeJobs (snd (execute s jid x)) k \<noteq> None) = (activeJobs s k \<noteq> None))
           \<and> (\<forall>k. jobContexts s k \<noteq> None \<longrightarrow> jobContexts (snd (execute s jid x)) k \<noteq> None)"
proof (cases "exec_failure s jid j x")
  case (Some e)
  from execute_failed [OF j Some] j show ?thesis
    by (intro exI [of _ failed]) (simp add: failed_state_def)
next
  case None
  from exec_failure_None [OF None] obtain m a res where
    h: "mergedInputs s jid j x = Inr m" "check_input s jid m = None"
       "assignee_of s j = Some a" "a (run_input_of s jid j m) = Inr res"
       "check_output s jid res = None"
    by (elim exE conjE)
  from c obtain cx where cx: "jobContexts s jid = Some cx" by auto
  from execute_completed [OF j h cx] j show ?thesis
    by (intro exI [of _ completed]) simp
qed

lemma execute_no_job: "activeJobs s jid = None \<Longrightarrow> execute s jid x = (Inl (NoActiveJob jid), s)"
  by (simp add: execute_def execute_start_def)

lemma execute_step:
  assumes "ctx_ok s"
  shows "ctx_ok (snd (execute s jid x))
       \<and> (\<exists>es. statusLog (snd (execute s jid x)) = statusLog s @ es
              \<and> (\<forall>e\<in>set es. edge_ok (Execute jid x) e))"
proof (cases "activeJobs s jid")
  case None
  with assms show ?thesis by (simp add: execute_no_job)
next
  case (Some j)
  with assms have c: "jobContexts s jid \<noteq> None" by (simp add: ctx_ok_def)
  from execute_edges [OF Some c, of x] obtain st where
    st: "st = completed \<or> st = failed"
    and lg: "statusLog (snd (execute s jid x)) =
                statusLog s @ [(jid, Some (status j), in_progress), (jid, Some in_progress, st)]"
    and aj: "\<forall>k. (activeJobs (snd (execute s jid x)) k \<noteq> None) = (activeJobs s k \<noteq> None)"
    and jc: "\<forall>k. jobContexts s k \<noteq> None \<longrightarrow> jobContexts (snd (execute s jid x)) k \<noteq> None"
    by (elim exE conjE)
  have "ctx_ok (snd (execute s jid x))"
    using assms aj jc unfolding ctx_ok_def by simp
  moreover have "\<forall>e\<in>set [(jid, Some (status j), in_progress), (jid, Some in_progress, st)].
      edge_ok (Execute jid x) e"
    using st by auto
  ultimately show ?thesis using lg by simp
qed

lemma assignJob_step:
  assumes "ctx_ok s"
  shows "ctx_ok (snd (assignJob s jid aid t))
       \<and> (\<exists>es. statusLog (snd (assignJob s jid aid t)) = statusLog s @ es
              \<and> (\<forall>e\<in>set es. edge_ok (AssignJob jid aid t) e))"
  using assms
  by (auto simp: assignJob_def Let_def ctx_ok_def emit_def createJobContext_def
      split: option.splits oom.splits)

lemma retry_state_facts:
  "statusLog (retry_state s jid j n) = statusLog s @ [(jid, Some (status j), assigned)]"
  "activeJobs (retry_state s jid j n) jid
     = Some (j\<lparr>retryCount := Some (retries j + 1), status := assigned, error := None\<rparr>)"
  "jobContexts (retry_state s jid j n) = jobContexts s"
  by (simp_all add: retry_state_def)

lemma ctx_ok_retry_state:
  "ctx_ok s \<Longrightarrow> activeJobs s jid = Some j \<Longrightarrow> ctx_ok (retry_state s jid j n)"
  by (auto simp: ctx_ok_def retry_state_def)

lemma retryJob_step:
  assumes "ctx_ok s"
  shows "ctx_ok (snd (retryJob s jid n x))
       \<and> (\<exists>es. statusLog (snd (retryJob s jid n x)) = statusLog s @ es
              \<and> (\<forall>e\<in>set es. edge_ok (RetryJob jid n x) e))"
proof (cases "activeJobs s jid")
  case None
  with assms show ?thesis by (simp add: retryJob_def)
next
  case (Some j)
  show ?thesis
  proof (cases "status j = failed")
    case False
    with Some assms show ?thesis by (simp add: retryJob_not_failed)
  next
    case True
    note f = this
    show ?thesis
    proof (cases "n \<le> int (retries j)")
      case True
      have "ctx_ok (s\<lparr>activeJobs := (activeJobs s)(jid \<mapsto> j\<lparr>retryCount := Some (retries j)\<rparr>)\<rparr>)"
        using assms Some by (auto simp: ctx_ok_def)
      with retryJob_exhausted [OF Some f True] show ?thesis by simp
    next
      case False
      then have lt: "int (retries j) < n" by simp
      let ?s1 = "retry_state s jid j n"
      let ?j1 = "j\<lparr>retryCount := Some (retries j + 1), status := assigned, error := None\<rparr>"
      have ok1: "ctx_ok ?s1" by (rule ctx_ok_retry_state [OF assms Some])
      have j1: "activeJobs ?s1 jid = Some ?j1" by (rule retry_state_facts(2))
      have c1: "jobContexts ?s1 jid \<noteq> None"
        using ok1 j1 by (simp add: ctx_ok_def)
      from execute_edges [OF j1 c1, of x] obtain st where
        st: "st = completed \<or> st = failed"
        and lg: "statusLog (snd (execute ?s1 jid x)) =
                statusLog ?s1 @ [(jid, Some (status ?j1), in_progress), (jid, Some in_progress, st)]"
        by (elim exE conjE)
      have eq: "retryJob s jid n x = execute ?s1 jid x"
        by (rule retryJob_again [OF Some f lt])
      have lg': "statusLog (snd (retryJob s jid n x)) =
          statusLog s @ [(jid, Some failed, assigned), (jid, Some assigned, in_progress),
                         (jid, Some in_progress, st)]"
        unfolding eq lg by (simp add: retry_state_facts(1) f)
      have "\<forall>e\<in>set [(jid, Some failed, assigned), (jid, Some assigned, in_progress),
                         (jid, Some in_progress, st)]. edge_ok (RetryJob jid n x) e"
        using st by auto
      moreover have "ctx_ok (snd (retryJob s jid n x))"
        unfolding eq using execute_step [OF ok1, of jid x] by simp
      ultimately show ?thesis using lg' by simp
    qed
  qed
qed

lemma apply_call_step:
  assumes "ctx_ok s"
  shows "ctx_ok (apply_call s c)
       \<and> (\<exists>es. statusLog (apply_call s c) = statusLog s @ es \<and> (\<forall>e\<in>set es. edge_ok c e))"
proof (cases c)
  case (AssignJob jid aid t)
  with assignJob_step [OF assms, of jid aid t] show ?thesis by simp
next
  case (Execute jid x)
  with execute_step [OF assms, of jid x] show ?thesis by simp
next
  case (RetryJob jid n x)
  with retryJob_step [OF assms, of jid n x] show ?thesis by simp
qed

lemma ctx_ok_apply_calls: "ctx_ok s \<Longrightarrow> ctx_ok (apply_calls s cs)"
  unfolding apply_calls_def
  by (induction cs arbitrary: s) (simp_all add: apply_call_step)

text \<open>
  Claim C1, amended. From a state in which every active job has a job context, and after
  any sequence of \<^verbatim>\<open>assignJob\<close>, \<^verbatim>\<open>execute\<close> and \<^verbatim>\<open>retryJob\<close> calls, the next call
  writes job statuses along these edges only: \<^verbatim>\<open>assignJob\<close> puts a job object with
  status \<^verbatim>\<open>assigned\<close> under the id, whatever was there; \<^verbatim>\<open>execute\<close> writes
  \<^verbatim>\<open>in_progress\<close> whatever the status was, then \<^verbatim>\<open>completed\<close> or \<^verbatim>\<open>failed\<close> from
  \<^verbatim>\<open>in_progress\<close>; \<^verbatim>\<open>retryJob\<close> writes \<^verbatim>\<open>assigned\<close> from \<^verbatim>\<open>failed\<close>, then
  \<^verbatim>\<open>in_progress\<close> from \<^verbatim>\<open>assigned\<close>, then \<^verbatim>\<open>completed\<close> or \<^verbatim>\<open>failed\<close> from
  \<^verbatim>\<open>in_progress\<close>.
\<close>

theorem status_edges:
  assumes "ctx_ok s"
  shows "\<exists>es. statusLog (apply_call (apply_calls s cs) c) = statusLog (apply_calls s cs) @ es
           \<and> (\<forall>e\<in>set es. edge_ok c e)"
  using apply_call_step [OF ctx_ok_apply_calls [OF assms], of cs c] by simp

theorem status_edges_witness:
  "ctx_ok (office (agent_returning JNull))
   \<and> statusLog (apply_calls (office (agent_returning JNull))
        [AssignJob ''j1'' ''a1'' Absent, Execute ''j1'' []])
      = [(''j1'', None, assigned), (''j1'', Some assigned, in_progress),
         (''j1'', Some in_progress, completed)]
   \<and> (\<exists>es. statusLog (apply_call (apply_calls (office (agent_returning JNull)) [AssignJob ''j1'' ''a1'' Absent])
                 (Execute ''j1'' []))
            = statusLog (apply_calls (office (agent_returning JNull)) [AssignJob ''j1'' ''a1'' Absent]) @ es
          \<and> es = [(''j1'', Some assigned, in_progress), (''j1'', Some in_progress, completed)]
          \<and> list_all (edge_ok (Execute ''j1'' [])) es)"
proof -
  have ok: "ctx_ok (office (agent_returning JNull))"
    by (simp add: ctx_ok_def fixture_defs createBrief_def emit_def Let_def)
  have l1: "statusLog (apply_calls (office (agent_returning JNull)) [AssignJob ''j1'' ''a1'' Absent])
      = [(''j1'', None, assigned)]"
    by (simp add: apply_calls_def fixture_defs job_evals)
  have l2: "statusLog (apply_calls (office (agent_returning JNull))
        [AssignJob ''j1'' ''a1'' Absent, Execute ''j1'' []])
      = [(''j1'', None, assigned), (''j1'', Some assigned, in_progress),
         (''j1'', Some in_progress, completed)]"
    by (simp add: apply_calls_def fixture_defs job_evals)
  from status_edges [OF ok, of "[AssignJob ''j1'' ''a1'' Absent]" "Execute ''j1'' []"]
  obtain es where
    es: "statusLog (apply_call (apply_calls (office (agent_returning JNull)) [AssignJob ''j1'' ''a1'' Absent])
                 (Execute ''j1'' []))
            = statusLog (apply_calls (office (agent_returning JNull)) [AssignJob ''j1'' ''a1'' Absent]) @ es"
    and ed: "\<forall>e\<in>set es. edge_ok (Execute ''j1'' []) e"
    by (elim exE conjE)
  have "apply_call (apply_calls (office (agent_returning JNull)) [AssignJob ''j1'' ''a1'' Absent])
                 (Execute ''j1'' [])
        = apply_calls (office (agent_returning JNull)) [AssignJob ''j1'' ''a1'' Absent, Execute ''j1'' []]"
    by (simp add: apply_calls_def)
  with es l1 l2 have v: "es = [(''j1'', Some assigned, in_progress), (''j1'', Some in_progress, completed)]"
    by simp
  from ed have "list_all (edge_ok (Execute ''j1'' [])) es"
    by (simp add: list_all_iff)
  with ok l2 es v show ?thesis by (intro conjI exI [of _ es])
qed

theorem status_edges_counterexample:
  "statusLog (apply_calls (office (agent_returning JNull))
      [AssignJob ''j1'' ''a1'' Absent, Execute ''j1'' [], Execute ''j1'' []])
    = [(''j1'', None, assigned), (''j1'', Some assigned, in_progress),
       (''j1'', Some in_progress, completed), (''j1'', Some completed, in_progress),
       (''j1'', Some in_progress, completed)]"
  by (simp add: apply_calls_def fixture_defs job_evals)

section \<open>Reading properties\<close>

lemma planner_names_not_inherited:
  assumes "k \<in> set planner_names"
  shows "inherited d k = None"
proof -
  have "k \<noteq> ''__proto__''" and "k \<notin> set object_members" and "k \<notin> set number_members"
    and "k \<notin> set string_members" and "k \<notin> set array_members" and "k \<notin> set date_members"
    using assms
    by (auto simp: planner_names_def object_members_def number_members_def string_members_def
          array_members_def date_members_def)
  then show ?thesis by (cases d) (simp_all add: inherited_def)
qed

lemma planner_reads_plain:
  assumes "k \<in> set planner_names"
  shows "data_field d k = (case plain_field d k of Inl e \<Rightarrow> Inl e | Inr v \<Rightarrow> Inr (Data v))"
  using planner_names_not_inherited [OF assms, of d]
  by (simp add: data_field_def plain_field_def split: option.splits)

text \<open>
  The properties of a string that a schema can name: its length is a number it owns, its
  methods are functions it inherits, and anything else is \<^verbatim>\<open>undefined\<close>.
\<close>

lemma string_properties:
  "check_fields (JStr ''abc'') [(''length'', \<lparr>required = True, ftype = None, enum = None\<rparr>)] = Inr []"
  "check_fields (JStr ''abc'') [(''length'', \<lparr>required = False, ftype = Some ''string'', enum = None\<rparr>)]
     = Inr [WrongType ''length'' ''string'' ''number'']"
  "check_fields (JStr ''abc'') [(''1'', \<lparr>required = True, ftype = Some ''string'', enum = Some [JStr ''b'']\<rparr>)]
     = Inr []"
  "check_fields (JStr ''abc'') [(''trim'', \<lparr>required = True, ftype = Some ''function'', enum = None\<rparr>)]
     = Inr []"
  "check_fields (JStr ''abc'') [(''size'', \<lparr>required = True, ftype = None, enum = None\<rparr>)]
     = Inr [MissingRequired ''size'']"
  by (simp_all add: check_field_def data_field_def index_of_def inherited_def string_members_def
        object_members_def show_nat.simps digit_def)

section \<open>Replies that cannot be parsed\<close>

lemma show_nat_digits: "set (show_nat n) \<subseteq> set ''0123456789''"
proof (induction n rule: show_nat.induct)
  case (1 n)
  have d: "digit m \<in> set ''0123456789''" if "m < 10" for m
    unfolding digit_def by (rule nth_mem) (use that in simp)
  show ?case
  proof (cases "n < 10")
    case True
    then show ?thesis using d [of n] by (subst show_nat.simps) simp
  next
    case False
    then have "n mod 10 < 10" by simp
    with False 1 d [of "n mod 10"] show ?thesis by (subst show_nat.simps) simp
  qed
qed

lemma index_of_None:
  assumes "c \<in> set k" and "c \<notin> set ''0123456789''"
  shows "index_of k n = None"
proof -
  have "show_nat i \<noteq> k" for i using show_nat_digits [of i] assms by auto
  then show ?thesis by (simp add: index_of_def find_None_iff)
qed

lemma response_text_string: "response_text (JStr t) = Inr (JStr t)"
proof -
  have "index_of ''text'' n = None" for n by (rule index_of_None [of "CHR ''t''"]) simp_all
  moreover have "index_of ''output'' n = None" for n by (rule index_of_None [of "CHR ''o''"]) simp_all
  ultimately show ?thesis by (simp add: response_text_def plain_field_def js_or_def)
qed

lemma parse_reply_fails:
  assumes "parse rtx = Inl e1"
    and "\<forall>t m. rtx = JStr t \<and> match_array t = Some m \<longrightarrow> (\<exists>e2. parse (JStr m) = Inl e2)"
  shows "\<exists>e. parse_reply parse rtx = Inl e"
proof (cases "\<exists>t. rtx = JStr t")
  case False
  with assms(1) show ?thesis
    by (cases rtx) (simp_all add: parse_reply_def)
next
  case True
  then obtain t where t: "rtx = JStr t" by (elim exE)
  show ?thesis
  proof (cases "match_array t")
    case None
    with assms(1) t show ?thesis by (simp add: parse_reply_def)
  next
    case (Some m)
    with assms(2) t obtain e2 where "parse (JStr m) = Inl e2" by blast
    with assms(1) t Some show ?thesis by (simp add: parse_reply_def)
  qed
qed

lemma plan_default:
  assumes "agents s agentId = Some a" and "a (PlanningPrompt goal) = Inr reply"
    and "response_text reply = Inr rtx" and "parse_reply parse rtx = Inl e"
  shows "planJobsFromGoal parse s agentId goal = (Inr default_plan, s)"
  using assms by (simp add: planJobsFromGoal_def)

lemma replan_raises:
  assumes "activeJobs s jid = Some j" and "agents s (assigneeId j) = Some a"
    and "brief s jid = Some b" and "truthy (lookup b ''goal'')"
    and "a (ReplanningPrompt (lookup b ''goal'') (lookup b ''taskName'') (lookup b ''overview'') msg) = Inr reply"
    and "response_text reply = Inr rtx" and "parse_reply parse rtx = Inl e"
  shows "replanFailedJob parse s jid msg = (Inl (ReplanParseFailed e), s)"
  using assms by (simp add: replanFailedJob_def)

text \<open>
  Claim C6. When the reply of the planner's run is parsed by neither tier (the direct
  parse throws, and the text matched by the array pattern, if any, does not parse either),
  \<^verbatim>\<open>planJobsFromGoal\<close> returns the built-in plan, with the three tasks spelled out
  below, and creates nothing, while \<^verbatim>\<open>replanFailedJob\<close> under the same condition throws
  its parsing error, which wraps the error of the tier that failed last.
\<close>

theorem unparsable_reply:
  "(agents s agentId = Some a \<and> a (PlanningPrompt goal) = Inr reply
      \<and> response_text reply = Inr rtx \<and> parse rtx = Inl e1
      \<and> (\<forall>t m. rtx = JStr t \<and> match_array t = Some m \<longrightarrow> (\<exists>e2. parse (JStr m) = Inl e2))
    \<longrightarrow> planJobsFromGoal parse s agentId goal =
         (Inr (JArr
          [JObj [(''name'', JStr ''Research vacation options''),
                 (''description'', JStr ''Research and suggest vacation options based on user preferences''),
                 (''inputs'', JArr [JStr ''user_preferences'']),
                 (''outputs'', JArr [JStr ''vacation_suggestions''])],
           JObj [(''name'', JStr ''Create vacation itinerary''),
                 (''description'', JStr ''Create a detailed itinerary for the vacation''),
                 (''inputs'', JArr [JStr ''vacation_suggestions'', JStr ''user_preferences'']),
                 (''outputs'', JArr [JStr ''vacation_itinerary''])],
           JObj [(''name'', JStr ''Book accommodations and transportation''),
                 (''description'', JStr ''Book accommodations and transportation for the vacation''),
                 (''inputs'', JArr [JStr ''vacation_itinerary'', JStr ''user_preferences'']),
                 (''outputs'', JArr [JStr ''booking_confirmations''])]]), s))
   \<and> (activeJobs s' jid = Some j \<and> agents s' (assigneeId j) = Some a' \<and> brief s' jid = Some b
      \<and> truthy (lookup b ''goal'')
      \<and> a' (ReplanningPrompt (lookup b ''goal'') (lookup b ''taskName'') (lookup b ''overview'') msg)
           = Inr reply'
      \<and> response_text reply' = Inr rtx' \<and> parse rtx' = Inl e1'
      \<and> (\<forall>t m. rtx' = JStr t \<and> match_array t = Some m \<longrightarrow> (\<exists>e2. parse (JStr m) = Inl e2))
    \<longrightarrow> (\<exists>e. replanFailedJob parse s' jid msg = (Inl (ReplanParseFailed e), s')
             \<and> parse_reply parse rtx' = Inl e))"
proof (intro conjI impI)
  assume h: "agents s agentId = Some a \<and> a (PlanningPrompt goal) = Inr reply
      \<and> response_text reply = Inr rtx \<and> parse rtx = Inl e1
      \<and> (\<forall>t m. rtx = JStr t \<and> match_array t = Some m \<longrightarrow> (\<exists>e2. parse (JStr m) = Inl e2))"
  then obtain e where "parse_reply parse rtx = Inl e"
    using parse_reply_fails [of parse rtx e1] by blast
  with h show "planJobsFromGoal parse s agentId goal =
         (Inr (JArr
          [JObj [(''name'', JStr ''Research vacation options''),
                 (''description'', JStr ''Research and suggest vacation options based on user preferences''),
                 (''inputs'', JArr [JStr ''user_preferences'']),
                 (''outputs'', JArr [JStr ''vacation_suggestions''])],
           JObj [(''name'', JStr ''Create vacation itinerary''),
                 (''description'', JStr ''Create a detailed itinerary for the vacation''),
                 (''inputs'', JArr [JStr ''vacation_suggestions'', JStr ''user_preferences'']),
                 (''outputs'', JArr [JStr ''vacation_itinerary''])],
           JObj [(''name'', JStr ''Book accommodations and transportation''),
                 (''description'', JStr ''Book accommodations and transportation for the vacation''),
                 (''inputs'', JArr [JStr ''vacation_itinerary'', JStr ''user_preferences'']),
                 (''outputs'', JArr [JStr ''booking_confirmations''])]]), s)"
    using plan_default [of s agentId a goal reply rtx parse e] by (simp add: default_plan_def)
next
  assume h: "activeJobs s' jid = Some j \<and> agents s' (assigneeId j) = Some a' \<and> brief s' jid = Some b
      \<and> truthy (lookup b ''goal'')
      \<and> a' (ReplanningPrompt (lookup b ''goal'') (lookup b ''taskName'') (lookup b ''overview'') msg)
           = Inr reply'
      \<and> response_text reply' = Inr rtx' \<and> parse rtx' = Inl e1'
      \<and> (\<forall>t m. rtx' = JStr t \<and> match_array t = Some m \<longrightarrow> (\<exists>e2. parse (JStr m) = Inl e2))"
  then obtain e where e: "parse_reply parse rtx' = Inl e"
    using parse_reply_fails [of parse rtx' e1'] by blast
  with h have "replanFailedJob parse s' jid msg = (Inl (ReplanParseFailed e), s')"
    using replan_raises [of s' jid j a' b msg reply' rtx' parse e] by simp
  with e show "\<exists>e. replanFailedJob parse s' jid msg = (Inl (ReplanParseFailed e), s')
             \<and> parse_reply parse rtx' = Inl e"
    by (intro exI [of _ e]) simp
qed

theorem unparsable_reply_witness:
  "agents (office (agent_returning (JStr ''Sure: [ { nope } ] done''))) ''a1''
      = Some (agent_returning (JStr ''Sure: [ { nope } ] done''))
   \<and> response_text (JStr ''Sure: [ { nope } ] done'') = Inr (JStr ''Sure: [ { nope } ] done'')
   \<and> reject_all (JStr ''Sure: [ { nope } ] done'') = Inl (SyntaxError ''Unexpected token'')
   \<and> match_array ''Sure: [ { nope } ] done'' = Some ''[ { nope } ]''
   \<and> reject_all (JStr ''[ { nope } ]'') = Inl (SyntaxError ''Unexpected token'')
   \<and> planJobsFromGoal reject_all (office (agent_returning (JStr ''Sure: [ { nope } ] done''))) ''a1'' ''plan a picnic''
        = (Inr (JArr
          [JObj [(''name'', JStr ''Research vacation options''),
                 (''description'', JStr ''Research and suggest vacation options based on user preferences''),
                 (''inputs'', JArr [JStr ''user_preferences'']),
                 (''outputs'', JArr [JStr ''vacation_suggestions''])],
           JObj [(''name'', JStr ''Create vacation itinerary''),
                 (''description'', JStr ''Create a detailed itinerary for the vacation''),
                 (''inputs'', JArr [JStr ''vacation_suggestions'', JStr ''user_preferences'']),
                 (''outputs'', JArr [JStr ''vacation_itinerary''])],
           JObj [(''name'', JStr ''Book accommodations and transportation''),
                 (''description'', JStr ''Book accommodations and transportation for the vacation''),
                 (''inputs'', JArr [JStr ''vacation_itinerary'', JStr ''user_preferences'']),
                 (''outputs'', JArr [JStr ''booking_confirmations''])]]),
           office (agent_returning (JStr ''Sure: [ { nope } ] done'')))
   \<and> activeJobs (goal_failed (agent_returning (JStr ''no idea''))) ''j1'' = Some (first_job failed JNull)
   \<and> truthy (JStr ''plan a picnic'')
   \<and> match_array ''no idea'' = None
   \<and> replanFailedJob reject_all (goal_failed (agent_returning (JStr ''no idea''))) ''j1'' ''boom''
          = (Inl (ReplanParseFailed (SyntaxError ''Unexpected token'')),
             goal_failed (agent_returning (JStr ''no idea'')))"
proof -
  let ?r = "JStr ''Sure: [ { nope } ] done''"
  let ?s = "office (agent_returning ?r)"
  let ?s' = "goal_failed (agent_returning (JStr ''no idea''))"
  let ?b = "[(''goal'', JStr ''plan a picnic''), (''taskName'', JStr ''buy food'')]"
  have a1: "agents ?s ''a1'' = Some (agent_returning ?r)"
    by (simp add: fixture_defs createBrief_def emit_def Let_def)
  have a2: "agent_returning ?r (PlanningPrompt ''plan a picnic'') = Inr ?r"
    by (simp add: agent_returning_def)
  have a3: "response_text ?r = Inr ?r"
    by (rule response_text_string)
  have a4: "reject_all ?r = Inl (SyntaxError ''Unexpected token'')"
    by (simp add: reject_all_def)
  have a5: "match_array ''Sure: [ { nope } ] done'' = Some ''[ { nope } ]''"
    by (simp add: is_space_def closes_def)
  have a6: "reject_all (JStr ''[ { nope } ]'') = Inl (SyntaxError ''Unexpected token'')"
    by (simp add: reject_all_def)
  have a7: "\<forall>t m. ?r = JStr t \<and> match_array t = Some m \<longrightarrow> (\<exists>e2. reject_all (JStr m) = Inl e2)"
    by (simp add: reject_all_def)
  have b1: "activeJobs ?s' ''j1'' = Some (first_job failed JNull)"
    by (simp add: goal_failed_def)
  have b2: "agents ?s' (assigneeId (first_job failed JNull)) = Some (agent_returning (JStr ''no idea''))"
    by (simp add: goal_failed_def new_agency_def first_job_def)
  have b3: "brief ?s' ''j1'' = Some ?b"
    by (simp add: goal_failed_def)
  have b4: "truthy (lookup ?b ''goal'')" "truthy (JStr ''plan a picnic'')"
    by (simp_all add: lookup_def)
  have b5: "agent_returning (JStr ''no idea'') (ReplanningPrompt (lookup ?b ''goal'') (lookup ?b ''taskName'')
              (lookup ?b ''overview'') ''boom'') = Inr (JStr ''no idea'')"
    by (simp add: agent_returning_def)
  have b6: "response_text (JStr ''no idea'') = Inr (JStr ''no idea'')"
    by (rule response_text_string)
  have b7: "reject_all (JStr ''no idea'') = Inl (SyntaxError ''Unexpected token'')"
    by (simp add: reject_all_def)
  have b8: "\<forall>t m. JStr ''no idea'' = JStr t \<and> match_array t = Some m \<longrightarrow> (\<exists>e2. reject_all (JStr m) = Inl e2)"
    by (simp add: reject_all_def)
  have b9: "match_array ''no idea'' = None"
    by (simp add: is_space_def closes_def)
  have b10: "parse_reply reject_all (JStr ''no idea'') = Inl (SyntaxError ''Unexpected token'')"
    by (simp add: parse_reply_def b7 b9)
  note t = unparsable_reply [of ?s "''a1''" "agent_returning ?r" "''plan a picnic''" ?r ?r reject_all
      "SyntaxError ''Unexpected token''" ?s' "''j1''" "first_job failed JNull"
      "agent_returning (JStr ''no idea'')" ?b "''boom''" "JStr ''no idea''" "JStr ''no idea''"
      "SyntaxError ''Unexpected token''"]
  from t a1 a2 a3 a4 a7 have c1: "planJobsFromGoal reject_all ?s ''a1'' ''plan a picnic'' =
        (Inr (JArr
          [JObj [(''name'', JStr ''Research vacation options''),
                 (''description'', JStr ''Research and suggest vacation options based on user preferences''),
                 (''inputs'', JArr [JStr ''user_preferences'']),
                 (''outputs'', JArr [JStr ''vacation_suggestions''])],
           JObj [(''name'', JStr ''Create vacation itinerary''),
                 (''description'', JStr ''Create a detailed itinerary for the vacation''),
                 (''inputs'', JArr [JStr ''vacation_suggestions'', JStr ''user_preferences'']),
                 (''outputs'', JArr [JStr ''vacation_itinerary''])],
           JObj [(''name'', JStr ''Book accommodations and transportation''),
                 (''description'', JStr ''Book accommodations and transportation for the vacation''),
                 (''inputs'', JArr [JStr ''vacation_itinerary'', JStr ''user_preferences'']),
                 (''outputs'', JArr [JStr ''booking_confirmations''])]]), ?s)"
    by simp
  from t b1 b2 b3 b4 b5 b6 b7 b8
  have "\<exists>e. replanFailedJob reject_all ?s' ''j1'' ''boom'' = (Inl (ReplanParseFailed e), ?s')
          \<and> parse_reply reject_all (JStr ''no idea'') = Inl e"
    by simp
  then have c2: "replanFailedJob reject_all ?s' ''j1'' ''boom''
      = (Inl (ReplanParseFailed (SyntaxError ''Unexpected token'')), ?s')"
    by (elim exE conjE) (simp add: b10)
  from a1 a3 a4 a5 a6 c1 b1 b4(2) b9 c2 show ?thesis by (intro conjI)
qed

section \<open>What a step passes to its assignee\<close>










lemma runLog_simps [simp]:
  "runLog (emit e s) = runLog s"
  "runLog (put_scope a m s) = runLog s"
  "runLog (remember_in a k v s) = runLog s"
  "runLog (upd_workflow w f s) = runLog s"
  "runLog (ensure_brief s jid b) = runLog s"
  by (simp_all add: emit_def put_scope_def remember_in_def upd_workflow_def ensure_brief_def
      createBrief_def Let_def split: option.splits)

lemma activeJobs_simps [simp]:
  "activeJobs (emit e s) = activeJobs s"
  "activeJobs (put_scope a m s) = activeJobs s"
  "activeJobs (remember_in a k v s) = activeJobs s"
  "activeJobs (upd_workflow w f s) = activeJobs s"
  by (simp_all add: emit_def put_scope_def remember_in_def upd_workflow_def split: option.splits)

lemma record_result_runLog [simp]: "runLog (snd (record_result kind s w i jid r)) = runLog s"
  by (simp add: record_result_def Let_def split: option.splits)





lemma run_steps_one:
  "run_steps order s w i [st] d = (r, s', fl) \<Longrightarrow>
   fst (do_step (order i)
          (emit (WorkflowStep w i (sjobId st) (sassigneeId st) (sassigneeType st)
                       (case stype st of None \<Rightarrow> ''sequential'' | Some t \<Rightarrow> t))
                 (upd_workflow w (\<lambda>rec. rec\<lparr>currentStep := i\<rparr>) s)) w i st d) = r
   \<and> fst (snd (do_step (order i)
          (emit (WorkflowStep w i (sjobId st) (sassigneeId st) (sassigneeType st)
                       (case stype st of None \<Rightarrow> ''sequential'' | Some t \<Rightarrow> t))
                 (upd_workflow w (\<lambda>rec. rec\<lparr>currentStep := i\<rparr>) s)) w i st d)) = s'"
  by (auto simp: Let_def split: prod.splits sum.splits)


lemma fail_workflow_runLog [simp]: "runLog (snd (fail_workflow s w e)) = runLog s"
  by (simp add: fail_workflow_def Let_def emit_def split: option.splits sum.splits)

lemma complete_workflow_runLog [simp]: "runLog (snd (complete_workflow s w)) = runLog s"
  by (simp add: complete_workflow_def Let_def emit_def fail_workflow_def split: option.splits)






section \<open>A parallel step with a branch that rejects\<close>

lemma always_rejects_fixed: "fixed s' = fixed s \<Longrightarrow> always_rejects s' aid jid = always_rejects s aid jid"
  by (simp add: always_rejects_def fixed_def)

lemma handled_None [simp]: "handled None j e = Inl e"
  by (simp add: handled_def)

lemma begin_job_rejecting:
  assumes "always_rejects s (assigneeId j) jid"
  shows "rejecting (fst (begin_job s jid j x))"
proof -
  from assms have nh: "errorHandlers s jid = None"
    and rj: "\<And>r inp. assignee_of s j = Some r \<Longrightarrow> isl (r inp)"
    by (auto simp: always_rejects_def assignee_of_def split: if_splits)
  show ?thesis
  proof (cases "mergedInputs s jid j x")
    case (Inl e)
    then show ?thesis by (simp add: begin_job_eq Let_def catch_job_True nh)
  next
    case (Inr m)
    note m = this
    show ?thesis
    proof (cases "check_input s jid m")
      case (Some e)
      with m show ?thesis by (simp add: begin_job_eq Let_def catch_job_True nh)
    next
      case None
      note ci = this
      show ?thesis
      proof (cases "assignee_of s j")
        case None
        with m ci show ?thesis by (simp add: begin_job_eq Let_def catch_job_True nh)
      next
        case (Some a)
        with m ci rj [OF Some] show ?thesis by (simp add: begin_job_eq Let_def)
      qed
    qed
  qed
qed

lemma assignJob_assignee:
  assumes "assignJob s jid aid t = (Inr j, s2)"
  shows "activeJobs s2 jid = Some j \<and> assigneeId j = aid"
  using assms
  by (auto simp: assignJob_def Let_def emit_def createJobContext_def split: option.splits oom.splits)

lemma start_branches_shape:
  assumes "start_branches s w i st d n jids acc = (None, bs, sx)"
  shows "\<exists>new. bs = acc @ new \<and> length new = length jids
           \<and> (\<forall>k<length jids. fst (new ! k) = n + k \<and> fst (snd (new ! k)) = jids ! k
                  \<and> (always_rejects s (opt_key (pick (sassigneeId st) (n + k))) (jids ! k)
                       \<longrightarrow> rejecting (snd (snd (new ! k)))))"
  using assms
proof (induction jids arbitrary: s n acc)
  case Nil
  then show ?case by simp
next
  case (Cons jid jids)
  let ?s1 = "ensure_brief s jid (spread (spread_opt (pick (sbrief st) n)) (parallel_tags w i n))"
  let ?aid = "opt_key (pick (sassigneeId st) n)"
  obtain r s2 where aj: "assignJob ?s1 jid ?aid (type_arg (pick (sassigneeType st) n)) = (r, s2)"
    by (cases "assignJob ?s1 jid ?aid (type_arg (pick (sassigneeType st) n))")
  have "s2 = snd (assignJob ?s1 jid ?aid (type_arg (pick (sassigneeType st) n)))"
    using aj by simp
  then have f2: "fixed s2 = fixed s" by simp
  show ?case
  proof (cases r)
    case (Inl e)
    with aj Cons.prems show ?thesis by (simp add: Let_def)
  next
    case (Inr j)
    let ?x = "spread (spread_opt (pick (inputs st) n)) ((''previousStepData'', d) # parallel_tags w i n)"
    obtain b s3 where es: "execute_start s2 jid ?x = (b, s3)" by (cases "execute_start s2 jid ?x")
    from assignJob_assignee [OF aj [unfolded Inr]]
    have j: "activeJobs s2 jid = Some j" and aid: "assigneeId j = ?aid" by simp_all
    have b: "b = fst (begin_job s2 jid j ?x)"
      using es j by (simp add: execute_start_def)
    have "s3 = snd (execute_start s2 jid ?x)" using es by simp
    then have f3: "fixed s3 = fixed s" using f2 by simp
    from Cons.prems aj Inr es
    have rest: "start_branches s3 w i st d (n + 1) jids (acc @ [(n, jid, b)]) = (None, bs, sx)"
      by (simp add: Let_def)
    from Cons.IH [OF rest] obtain new where
      bs: "bs = (acc @ [(n, jid, b)]) @ new" and ln: "length new = length jids"
      and el: "\<forall>k<length jids. fst (new ! k) = n + 1 + k \<and> fst (snd (new ! k)) = jids ! k
                  \<and> (always_rejects s3 (opt_key (pick (sassigneeId st) (n + 1 + k))) (jids ! k)
                       \<longrightarrow> rejecting (snd (snd (new ! k))))"
      by (elim exE conjE)
    have hd: "always_rejects s ?aid jid \<longrightarrow> rejecting b"
      unfolding b using begin_job_rejecting [of s2 j jid ?x] aid always_rejects_fixed [OF f2]
      by simp
    have "\<forall>k<length (jid # jids). fst (((n, jid, b) # new) ! k) = n + k
             \<and> fst (snd (((n, jid, b) # new) ! k)) = (jid # jids) ! k
             \<and> (always_rejects s (opt_key (pick (sassigneeId st) (n + k))) ((jid # jids) ! k)
                       \<longrightarrow> rejecting (snd (snd (((n, jid, b) # new) ! k))))"
    proof (intro allI impI)
      fix k assume k: "k < length (jid # jids)"
      show "fst (((n, jid, b) # new) ! k) = n + k
             \<and> fst (snd (((n, jid, b) # new) ! k)) = (jid # jids) ! k
             \<and> (always_rejects s (opt_key (pick (sassigneeId st) (n + k))) ((jid # jids) ! k)
                       \<longrightarrow> rejecting (snd (snd (((n, jid, b) # new) ! k))))"
      proof (cases k)
        case 0
        with hd show ?thesis by simp
      next
        case (Suc k')
        with k have "k' < length jids" by simp
        with el Suc always_rejects_fixed [OF f3] show ?thesis by simp
      qed
    qed
    with bs ln show ?thesis
      by (intro exI [of _ "(n, jid, b) # new"]) simp
  qed
qed

lemma settle_branch_doomed:
  assumes "doomed s b"
  shows "isl (fst (settle_branch s b))"
proof -
  obtain i jid att st where b: "b = (i, jid, att, st)" by (cases b)
  show ?thesis
  proof (cases st)
    case (Settled r)
    with assms b show ?thesis by (simp add: doomed_def)
  next
    case (Waiting j out)
    with assms b obtain e where "out = Inl e" and "errorHandlers s jid = None"
      by (cases out) (simp_all add: doomed_def)
    with b Waiting show ?thesis
      by (simp add: finish_job_def catch_job_def write_status_def put_job_def emit_def Let_def)
  qed
qed

lemma doomed_fixed: "fixed s' = fixed s \<Longrightarrow> doomed s' b = doomed s b"
  by (simp add: doomed_def fixed_def)

lemma settle_all_doomed:
  assumes "b \<in> set bs" and "doomed s b"
  shows "isl (fst (settle_all s bs acc))"
  using assms
proof (induction bs arbitrary: s acc)
  case Nil
  then show ?case by simp
next
  case (Cons c bs)
  obtain r s1 where sb: "settle_branch s c = (r, s1)" by (cases "settle_branch s c")
  have f1: "fixed s1 = fixed s" using fixed_settle_branch [of s c] sb by simp
  show ?case
  proof (cases r)
    case (Inl e)
    with sb show ?thesis by simp
  next
    case (Inr v)
    have "b \<noteq> c"
    proof
      assume "b = c"
      with Cons.prems(2) settle_branch_doomed [of s c] sb Inr show False by simp
    qed
    with Cons.prems(1) have "b \<in> set bs" by simp
    moreover have "doomed s1 b" using doomed_fixed [OF f1] Cons.prems(2) by simp
    ultimately have "isl (fst (settle_all s1 bs (acc @ [(fst c, v)])))" by (rule Cons.IH)
    with sb Inr show ?thesis by simp
  qed
qed

lemma schedule_covers: "k < n \<Longrightarrow> k \<in> set (schedule order n)"
  by (simp add: schedule_def)

lemma mark_attached_length [simp]: "length (mark_attached bs) = length bs"
  by (induction bs rule: mark_attached.induct) simp_all

lemma mark_attached_nth:
  "k < length bs \<Longrightarrow>
     fst (snd (mark_attached bs ! k)) = fst (snd (bs ! k))
     \<and> snd (snd (snd (mark_attached bs ! k))) = snd (snd (bs ! k))"
proof (induction bs arbitrary: k rule: mark_attached.induct)
  case 1
  then show ?case by simp
next
  case (2 index jid b rest)
  then show ?case by (cases k) simp_all
qed

lemma parallel_step_rejects:
  assumes k: "k < length jids"
    and rej: "always_rejects s (opt_key (pick (sassigneeId st) k)) (jids ! k)"
  shows "isl (fst (parallel_step order s w i st jids d))
       \<and> workflows (fst (snd (parallel_step order s w i st jids d))) = workflows s"
proof -
  obtain r bs s1 where sb: "start_branches s w i st d 0 jids [] = (r, bs, s1)"
    by (cases "start_branches s w i st d 0 jids []")
  have s1: "wf_part s1 = wf_part s" "fixed s1 = fixed s"
    using start_branches_frames [of s w i st d 0 jids "[]"] sb by simp_all
  show ?thesis
  proof (cases r)
    case (Some e)
    with sb wf_partD [OF s1(1)] show ?thesis by (simp add: parallel_step_def)
  next
    case None
    from start_branches_shape [OF sb [unfolded None]] k rej
    have len: "length bs = length jids" and jid: "fst (snd (bs ! k)) = jids ! k"
      and rj: "rejecting (snd (snd (bs ! k)))"
      by auto
    let ?marked = "mark_attached bs"
    let ?arr = "map (\<lambda>p. ?marked ! p) (schedule order (length ?marked))"
    have kb: "k < length bs" using k len by simp
    have "doomed s (?marked ! k)"
      using mark_attached_nth [OF kb] jid rj rej by (simp add: doomed_def always_rejects_def)
    then have dm: "doomed s1 (?marked ! k)" using doomed_fixed [OF s1(2)] by simp
    have "?marked ! k \<in> set ?arr" using schedule_covers [of k "length bs" order] kb by simp
    from settle_all_doomed [OF this dm]
    have il: "isl (fst (settle_all s1 ?arr []))" .
    obtain r2 s2 rest where sa: "settle_all s1 ?arr [] = (r2, s2, rest)"
      by (cases "settle_all s1 ?arr []")
    from il sa obtain e where r2: "r2 = Inl e" by (cases r2) simp_all
    have s2: "wf_part s2 = wf_part s"
      using settle_all_frames [of s1 ?arr "[]"] sa s1 by simp
    from None sb sa r2 wf_partD [OF s2] show ?thesis by (simp add: parallel_step_def Let_def)
  qed
qed

lemma run_steps_append:
  "run_steps order s w i (xs @ ys) d =
     (case run_steps order s w i xs d of
        (Inl e, s', fl) \<Rightarrow> (Inl e, s', fl)
      | (Inr d', s', fl) \<Rightarrow> run_steps order s' w (i + length xs) ys d')"
proof (induction xs arbitrary: s i d)
  case Nil
  then show ?case by simp
next
  case (Cons st xs)
  let ?s1 = "emit (WorkflowStep w i (sjobId st) (sassigneeId st) (sassigneeType st)
                       (case stype st of None \<Rightarrow> ''sequential'' | Some t \<Rightarrow> t))
                 (upd_workflow w (\<lambda>rec. rec\<lparr>currentStep := i\<rparr>) s)"
  obtain r s2 fl where ds: "do_step (order i) ?s1 w i st d = (r, s2, fl)"
    by (cases "do_step (order i) ?s1 w i st d")
  show ?case
  proof (cases r)
    case (Inl e)
    with ds show ?thesis by (simp add: Let_def)
  next
    case (Inr v)
    with ds Cons.IH [of s2 "i + 1" v] show ?thesis
      by (simp add: Let_def split: prod.splits sum.splits)
  qed
qed

lemma run_steps_parallel_rejects:
  assumes par: "stype st = Some ''parallel''" "sjobId st = Many jids"
    and k: "k < length jids"
    and rej: "always_rejects s (opt_key (pick (sassigneeId st) k)) (jids ! k)"
    and rec: "workflows s w = Some rec"
  shows "\<exists>e s2 fl. run_steps order s w i (st # post) d = (Inl e, s2, fl)
           \<and> workflows s2 = (workflows s)(w \<mapsto> rec\<lparr>currentStep := i\<rparr>)"
proof -
  let ?s1 = "emit (WorkflowStep w i (sjobId st) (sassigneeId st) (sassigneeType st)
                       (case stype st of None \<Rightarrow> ''sequential'' | Some t \<Rightarrow> t))
                 (upd_workflow w (\<lambda>rec. rec\<lparr>currentStep := i\<rparr>) s)"
  have f1: "fixed ?s1 = fixed s" by simp
  have w1: "workflows ?s1 = (workflows s)(w \<mapsto> rec\<lparr>currentStep := i\<rparr>)"
    using rec by (simp add: emit_def upd_workflow_def)
  have rej1: "always_rejects ?s1 (opt_key (pick (sassigneeId st) k)) (jids ! k)"
    using always_rejects_fixed [OF f1] rej by simp
  have ds: "do_step (order i) ?s1 w i st d = parallel_step (order i) ?s1 w i st jids d"
    using par by (simp add: do_step_def)
  obtain r s2 fl where ps: "parallel_step (order i) ?s1 w i st jids d = (r, s2, fl)"
    by (cases "parallel_step (order i) ?s1 w i st jids d")
  from parallel_step_rejects [OF k rej1, of "order i" w i d] ps
  obtain e where r: "r = Inl e" and w2: "workflows s2 = workflows ?s1"
    by (cases r) simp_all
  have "run_steps order s w i (st # post) d = (Inl e, s2, fl)"
    using ds ps r by (simp add: Let_def)
  with w2 w1 show ?thesis by simp
qed

text \<open>
  Claim C4. A workflow reaches a parallel step (after steps \<open>pre\<close> that succeeded with data
  \<open>d\<close>) with branches for the job ids \<open>jids\<close>, three of them in the case of the claim.
  Whatever is registered under the assignee id of branch \<open>k\<close> (the second branch for
  \<open>k = 1\<close>) rejects, and the job of that branch has no error handler. Then, in whatever
  order the branches settle, \<^verbatim>\<open>executeWorkflow\<close> leaves the workflow record with status
  \<^verbatim>\<open>failed\<close>. The results of the record are those the earlier steps left: the step
  stores its branches' results only after all of them have resolved, so the other
  branches add no entry, neither before the call returns nor when the branches still in
  flight settle afterwards.
\<close>

theorem parallel_branch_rejects:
  assumes su: "fst (workflow_setup s (pre @ st # post) w init) = None"
    and pre: "fst (run_steps order (snd (workflow_setup s (pre @ st # post) w init)) w 0 pre
                (JObj init)) = Inr d"
    and par: "stype st = Some ''parallel''" "sjobId st = Many jids"
    and k: "k < length jids"
    and rej: "always_rejects s (opt_key (pick (sassigneeId st) k)) (jids ! k)"
  shows "\<exists>rec rec0.
      workflows (fst (snd (run_steps order (snd (workflow_setup s (pre @ st # post) w init)) w 0
                  pre (JObj init)))) w = Some rec0
    \<and> workflows (fst (snd (executeWorkflow order s (pre @ st # post) w init))) w = Some rec
    \<and> wstatus rec = wf_failed
    \<and> wresults rec = wresults rec0
    \<and> workflows (settle_later (fst (snd (executeWorkflow order s (pre @ st # post) w init)))
          (snd (snd (executeWorkflow order s (pre @ st # post) w init))))
        = workflows (fst (snd (executeWorkflow order s (pre @ st # post) w init)))"
proof -
  let ?wfd = "pre @ st # post"
  obtain u where su': "workflow_setup s ?wfd w init = (None, u)"
    using su by (cases "workflow_setup s ?wfd w init") simp
  from workflow_setup_ok [OF su] su' have u: "has_wf u w" "fixed u = fixed s" by simp_all
  obtain r0 s0 fl0 where run0: "run_steps order u w 0 pre (JObj init) = (r0, s0, fl0)"
    by (cases "run_steps order u w 0 pre (JObj init)")
  with pre su' have r0: "r0 = Inr d" by simp
  from run_steps_frames [of order u w 0 pre "JObj init" w] run0 u
  have s0: "has_wf s0 w" "fixed s0 = fixed s" by simp_all
  from s0(1) obtain rec0 where rec0: "workflows s0 w = Some rec0" by (auto simp: has_wf_def)
  have rej0: "always_rejects s0 (opt_key (pick (sassigneeId st) k)) (jids ! k)"
    using always_rejects_fixed [OF s0(2)] rej by simp
  from run_steps_parallel_rejects [OF par k rej0 rec0, of order "0 + length pre" post d]
  obtain e s2 fl where run1: "run_steps order s0 w (0 + length pre) (st # post) d = (Inl e, s2, fl)"
    and w2: "workflows s2 = (workflows s0)(w \<mapsto> rec0\<lparr>currentStep := 0 + length pre\<rparr>)"
    by (elim exE conjE)
  have run: "run_steps order u w 0 ?wfd (JObj init) = (Inl e, s2, fl)"
    by (simp only: run_steps_append [of order u w 0 pre "st # post" "JObj init"] run0 r0 run1
          prod.case sum.case)
  have rec2: "workflows s2 w = Some (rec0\<lparr>currentStep := 0 + length pre\<rparr>)"
    using w2 by simp
  have ex: "executeWorkflow order s ?wfd w init =
          (fst (fail_workflow s2 w e), snd (fail_workflow s2 w e), fl)"
    using su' run by (simp add: executeWorkflow_def Let_def)
  let ?S = "snd (fail_workflow s2 w e)"
  have fin: "workflows ?S w = Some (rec0\<lparr>currentStep := 0 + length pre, wstatus := wf_failed,
                 werror := Some e\<rparr>)"
    by (simp add: fail_workflow_eq [OF rec2])
  have later: "workflows (settle_later ?S fl) = workflows ?S"
    by (rule wf_partD [OF conjunct1 [OF settle_later_frames]])
  have a: "workflows (fst (snd (run_steps order (snd (workflow_setup s ?wfd w init)) w 0 pre
                  (JObj init)))) w = Some rec0"
    using su' run0 rec0 by simp
  show ?thesis
    apply (rule exI [of _ "rec0\<lparr>currentStep := 0 + length pre, wstatus := wf_failed,
                 werror := Some e\<rparr>"])
    apply (rule exI [of _ rec0])
    apply (intro conjI)
        apply (rule a)
       apply (simp add: ex fin)
      apply simp
     apply simp
    apply (simp add: ex later)
    done
qed

lemmas trio_defs = trio_def fan_out_def new_agency_def agent_rejecting_def agent_returning_def

theorem parallel_branch_rejects_witness:
  "\<exists>rec. workflows (fst (snd (executeWorkflow (\<lambda>i. []) trio [fan_out] ''w1'' []))) ''w1'' = Some rec
         \<and> wstatus rec = wf_failed \<and> wresults rec = []"
proof -
  have su: "fst (workflow_setup trio ([] @ fan_out # []) ''w1'' []) = None"
    by (simp add: trio_defs wf_evals emit_def Let_def)
  have pre: "fst (run_steps (\<lambda>i. []) (snd (workflow_setup trio ([] @ fan_out # []) ''w1'' [])) ''w1'' 0 []
                (JObj [])) = Inr (JObj [])"
    by simp
  have par: "stype fan_out = Some ''parallel''" "sjobId fan_out = Many [''j1'', ''j2'', ''j3'']"
    by (simp_all add: fan_out_def)
  have k: "(1::nat) < length [''j1'', ''j2'', ''j3'']" by simp
  have rej: "always_rejects trio (opt_key (pick (sassigneeId fan_out) 1)) ([''j1'', ''j2'', ''j3''] ! 1)"
    by (simp add: always_rejects_def trio_defs)
  have w0: "\<exists>rec0. workflows (snd (workflow_setup trio [fan_out] ''w1'' [])) ''w1'' = Some rec0
                \<and> wresults rec0 = []"
    by (simp add: trio_defs wf_evals emit_def Let_def)
  from parallel_branch_rejects [OF su pre par k rej]
  obtain rec rec0 where
    a: "workflows (snd (workflow_setup trio [fan_out] ''w1'' [])) ''w1'' = Some rec0"
    and b: "workflows (fst (snd (executeWorkflow (\<lambda>i. []) trio [fan_out] ''w1'' []))) ''w1'' = Some rec"
    and c: "wstatus rec = wf_failed" and d: "wresults rec = wresults rec0"
    by (elim exE conjE) simp
  from w0 a have "wresults rec0 = []" by (elim exE conjE) simp
  with b c d show ?thesis by (intro exI [of _ rec]) simp
qed

section \<open>Sharing between scopes\<close>

lemma recall_remember:
  "recall (snd (remember m k v)) k' =
     (if k' = k \<and> k \<notin> set (wrappers m) then v else recall m k')"
proof (cases "k \<in> set (wrappers m)")
  case True
  then show ?thesis by (simp add: remember_blocked)
next
  case False
  then show ?thesis by (simp add: remember_free recall_def lookup_set_prop)
qed

lemma put_scope_other [simp]:
  "memoryAccessControl (put_scope a m s) = memoryAccessControl s"
  "clock (put_scope a m s) = clock s"
  by (simp_all add: put_scope_def)

lemma share_key_present:
  assumes "scope_of s src = Some sm" and "scope_of s tgt = Some t" and "src \<noteq> tgt"
    and "recall sm k \<noteq> JUndef"
  shows "\<exists>t1. scope_of (share_key src tgt mode k s) src = Some sm
       \<and> scope_of (share_key src tgt mode k s) tgt = Some t1
       \<and> (\<forall>k'. recall t1 k' = (if k' = k \<and> k \<notin> set (wrappers t) then recall sm k else recall t k'))
       \<and> (\<forall>k'. k' \<in> set (wrappers t1) \<longleftrightarrow> k' \<in> set (wrappers t) \<or> (mode = ''read-only'' \<and> k' = k))
       \<and> memoryAccessControl (share_key src tgt mode k s) tgt =
            Some ((case memoryAccessControl s tgt of None \<Rightarrow> Map.empty | Some g \<Rightarrow> g)
                    (k \<mapsto> \<lparr>sourceScope = src, accessMode = mode, sharedAt = clock s\<rparr>))
       \<and> clock (share_key src tgt mode k s) = clock s"
proof -
  let ?t0 = "snd (remember t k (recall sm k))"
  let ?t1 = "if mode = ''read-only'' then ?t0\<lparr>wrappers := k # wrappers ?t0\<rparr> else ?t0"
  have r: "recall ?t1 k' = (if k' = k \<and> k \<notin> set (wrappers t) then recall sm k else recall t k')" for k'
  proof -
    have rw: "recall (m\<lparr>wrappers := x\<rparr>) q = recall m q" for m x q
      by (simp add: recall_def)
    show ?thesis by (simp add: rw recall_remember)
  qed
  have w: "k' \<in> set (wrappers ?t1) \<longleftrightarrow> k' \<in> set (wrappers t) \<or> (mode = ''read-only'' \<and> k' = k)" for k'
    by auto
  have "scope_of (share_key src tgt mode k s) src = Some sm
       \<and> scope_of (share_key src tgt mode k s) tgt = Some ?t1
       \<and> memoryAccessControl (share_key src tgt mode k s) tgt =
            Some ((case memoryAccessControl s tgt of None \<Rightarrow> Map.empty | Some g \<Rightarrow> g)
                    (k \<mapsto> \<lparr>sourceScope = src, accessMode = mode, sharedAt = clock s\<rparr>))
       \<and> clock (share_key src tgt mode k s) = clock s"
    using assms by (simp add: share_key_def Let_def)
  with r w show ?thesis by (intro exI [of _ ?t1]) simp
qed

lemma share_key_absent:
  assumes "scope_of s src = Some sm" and "recall sm k = JUndef"
  shows "share_key src tgt mode k s = s"
  using assms by (simp add: share_key_def Let_def split: option.splits)

text \<open>What the loop of \<^verbatim>\<open>shareMemoryBetween\<close> leaves, for distinct scopes.\<close>

lemma share_keys_result:
  assumes "scope_of s src = Some sm" and "scope_of s tgt = Some t" and "src \<noteq> tgt"
    and "memoryAccessControl s tgt = Some acl"
  shows "\<exists>t' acl'.
      scope_of (share_keys src tgt mode ks s) src = Some sm
    \<and> scope_of (share_keys src tgt mode ks s) tgt = Some t'
    \<and> memoryAccessControl (share_keys src tgt mode ks s) tgt = Some acl'
    \<and> clock (share_keys src tgt mode ks s) = clock s
    \<and> (\<forall>k. recall t' k =
          (if k \<in> set ks \<and> recall sm k \<noteq> JUndef \<and> k \<notin> set (wrappers t) then recall sm k
           else recall t k))
    \<and> (\<forall>k. acl' k =
          (if k \<in> set ks \<and> recall sm k \<noteq> JUndef
           then Some \<lparr>sourceScope = src, accessMode = mode, sharedAt = clock s\<rparr>
           else acl k))"
  using assms
proof (induction ks arbitrary: s t acl)
  case Nil
  then show ?case by simp
next
  case (Cons k0 ks)
  show ?case
  proof (cases "recall sm k0 = JUndef")
    case True
    have same: "share_key src tgt mode k0 s = s"
      by (rule share_key_absent [OF Cons.prems(1) True])
    from Cons.IH [OF Cons.prems] obtain t' acl' where
      r: "scope_of (share_keys src tgt mode ks s) src = Some sm"
         "scope_of (share_keys src tgt mode ks s) tgt = Some t'"
         "memoryAccessControl (share_keys src tgt mode ks s) tgt = Some acl'"
         "clock (share_keys src tgt mode ks s) = clock s"
      and rc: "\<forall>k. recall t' k =
          (if k \<in> set ks \<and> recall sm k \<noteq> JUndef \<and> k \<notin> set (wrappers t) then recall sm k
           else recall t k)"
      and ra: "\<forall>k. acl' k =
          (if k \<in> set ks \<and> recall sm k \<noteq> JUndef
           then Some \<lparr>sourceScope = src, accessMode = mode, sharedAt = clock s\<rparr>
           else acl k)"
      by (elim exE conjE)
    show ?thesis
      apply (rule exI [of _ t'], rule exI [of _ acl'])
      using r rc ra True by (auto simp: same)
  next
    case False
    let ?s1 = "share_key src tgt mode k0 s"
    let ?acl1 = "acl(k0 \<mapsto> \<lparr>sourceScope = src, accessMode = mode, sharedAt = clock s\<rparr>)"
    from share_key_present [OF Cons.prems(1,2,3) False, of mode] Cons.prems(4)
    obtain t1 where
      s1: "scope_of ?s1 src = Some sm" "scope_of ?s1 tgt = Some t1"
      "memoryAccessControl ?s1 tgt = Some ?acl1" "clock ?s1 = clock s"
      and t1: "\<forall>k. recall t1 k = (if k = k0 \<and> k0 \<notin> set (wrappers t) then recall sm k0 else recall t k)"
      and w1: "\<forall>k. k \<in> set (wrappers t1) \<longleftrightarrow> k \<in> set (wrappers t) \<or> (mode = ''read-only'' \<and> k = k0)"
      by (elim exE conjE) simp
    from Cons.IH [OF s1(1) s1(2) Cons.prems(3) s1(3)] obtain t' acl' where
      r: "scope_of (share_keys src tgt mode ks ?s1) src = Some sm"
         "scope_of (share_keys src tgt mode ks ?s1) tgt = Some t'"
         "memoryAccessControl (share_keys src tgt mode ks ?s1) tgt = Some acl'"
         "clock (share_keys src tgt mode ks ?s1) = clock ?s1"
      and rc: "\<forall>k. recall t' k =
          (if k \<in> set ks \<and> recall sm k \<noteq> JUndef \<and> k \<notin> set (wrappers t1) then recall sm k
           else recall t1 k)"
      and ra: "\<forall>k. acl' k =
          (if k \<in> set ks \<and> recall sm k \<noteq> JUndef
           then Some \<lparr>sourceScope = src, accessMode = mode, sharedAt = clock ?s1\<rparr>
           else ?acl1 k)"
      by (elim exE conjE)
    have c: "recall t' k =
          (if k \<in> set (k0 # ks) \<and> recall sm k \<noteq> JUndef \<and> k \<notin> set (wrappers t) then recall sm k
           else recall t k)" for k
      using rc [rule_format, of k] t1 [rule_format, of k] w1 [rule_format, of k] False
      by (auto split: if_splits)
    have a: "acl' k =
          (if k \<in> set (k0 # ks) \<and> recall sm k \<noteq> JUndef
           then Some \<lparr>sourceScope = src, accessMode = mode, sharedAt = clock s\<rparr>
           else acl k)" for k
      using ra [rule_format, of k] s1(4) False by auto
    show ?thesis
      apply (rule exI [of _ t'], rule exI [of _ acl'])
      apply (intro conjI allI)
           apply (simp add: r(1))
          apply (simp add: r(2))
         apply (simp add: r(3))
        apply (simp add: r(4) s1(4))
       apply (rule c)
      apply (rule a)
      done
  qed
qed

text \<open>
  Claim C9, amended. For two distinct scopes and a list of keys none of which is the name
  of a member of \<^verbatim>\<open>Object.prototype\<close>, \<^verbatim>\<open>shareMemoryBetween\<close> goes through the keys
  listed, or through all keys of the source when the list is empty, and leaves the source
  as it was. A key that the source does not hold is skipped: nothing is copied and no grant
  is recorded for it. For a key that the source holds, the grant (source scope id, access
  mode, time of the call) is recorded and \<^verbatim>\<open>getMemoryAccessInfo\<close> returns it; the value is
  written through the \<^verbatim>\<open>remember\<close> of the target, so the target holds the source's current
  value unless an earlier read-only grant into the target covers the key, in which case
  the target keeps what it had. The copy is a snapshot: later \<^verbatim>\<open>remember\<close> calls on the
  source leave the target scope as it is.
\<close>

theorem share_copies_and_records:
  assumes "scope_of s src = Some sm" and "scope_of s tgt = Some tm" and "src \<noteq> tgt"
    and "set keys \<inter> set prototype_names = {}"
  shows "\<exists>s' tm'. shareMemoryBetween s src tgt keys mode = Inr s'
      \<and> scope_of s' src = Some sm \<and> scope_of s' tgt = Some tm'
      \<and> (\<forall>k. recall tm' k =
            (if k \<in> set (if keys \<noteq> [] then keys else map fst (keyValueStore sm))
                \<and> recall sm k \<noteq> JUndef \<and> k \<notin> set (wrappers tm)
             then recall sm k else recall tm k))
      \<and> (\<forall>k. getMemoryAccessInfo s' tgt k =
            (if k \<in> set (if keys \<noteq> [] then keys else map fst (keyValueStore sm))
                \<and> recall sm k \<noteq> JUndef
             then Some \<lparr>sourceScope = src, accessMode = mode, sharedAt = clock s\<rparr>
             else getMemoryAccessInfo s tgt k))
      \<and> (\<forall>calls. scope_of (put_scope src (remember_all sm calls) s') tgt = Some tm')"
proof -
  define ks where "ks = (if keys \<noteq> [] then keys else map fst (keyValueStore sm))"
  define acl0 where "acl0 = (case memoryAccessControl s tgt of None \<Rightarrow> Map.empty | Some g \<Rightarrow> g)"
  define s1 where "s1 = s\<lparr>memoryAccessControl := (memoryAccessControl s)(tgt \<mapsto> acl0)\<rparr>"
  define s2 where "s2 = share_keys src tgt mode ks s1"
  define s' where "s' = emit (MemoryShared src tgt ks mode) s2"
  have sh: "shareMemoryBetween s src tgt keys mode = Inr s'"
    using assms(1,2)
    by (simp add: shareMemoryBetween_def getMemoryScope_def Let_def s'_def s2_def s1_def acl0_def ks_def)
  have a1: "scope_of s1 src = Some sm" "scope_of s1 tgt = Some tm"
    "memoryAccessControl s1 tgt = Some acl0" "clock s1 = clock s"
    using assms(1,2) by (simp_all add: s1_def)
  from share_keys_result [OF a1(1) a1(2) assms(3) a1(3), of mode ks] obtain t' acl' where
    r: "scope_of s2 src = Some sm" "scope_of s2 tgt = Some t'"
       "memoryAccessControl s2 tgt = Some acl'"
    and rc: "\<forall>k. recall t' k =
          (if k \<in> set ks \<and> recall sm k \<noteq> JUndef \<and> k \<notin> set (wrappers tm) then recall sm k
           else recall tm k)"
    and ra: "\<forall>k. acl' k =
          (if k \<in> set ks \<and> recall sm k \<noteq> JUndef
           then Some \<lparr>sourceScope = src, accessMode = mode, sharedAt = clock s1\<rparr>
           else acl0 k)"
    unfolding s2_def by (elim exE conjE)
  have g0: "acl0 k = getMemoryAccessInfo s tgt k" for k
    by (simp add: getMemoryAccessInfo_def acl0_def split: option.splits)
  have g1: "getMemoryAccessInfo s' tgt k = acl' k" for k
    by (simp add: s'_def getMemoryAccessInfo_def emit_def r(3))
  have g: "getMemoryAccessInfo s' tgt k =
            (if k \<in> set ks \<and> recall sm k \<noteq> JUndef
             then Some \<lparr>sourceScope = src, accessMode = mode, sharedAt = clock s\<rparr>
             else getMemoryAccessInfo s tgt k)" for k
    unfolding g1 ra [rule_format, of k] g0 a1(4) ..
  have later: "scope_of (put_scope src (remember_all sm calls) s') tgt = Some t'" for calls
    using assms(3) r(2) by (simp add: s'_def)
  have src': "scope_of s' src = Some sm" and tgt': "scope_of s' tgt = Some t'"
    using r(1,2) by (simp_all add: s'_def)
  show ?thesis
    unfolding ks_def [symmetric]
    apply (rule exI [of _ s'], rule exI [of _ t'])
    apply (intro conjI allI)
         apply (rule sh)
        apply (rule src')
       apply (rule tgt')
      apply (rule rc [rule_format])
     apply (rule g)
    apply (rule later)
    done
qed

theorem share_copies_and_records_witness:
  "scope_of two_scopes ''a'' = Some \<lparr>keyValueStore = [(''k'', JNum 1)], wrappers = []\<rparr>
   \<and> scope_of two_scopes ''b'' = Some new_memory
   \<and> ''a'' \<noteq> ''b''
   \<and> set ([]::string list) \<inter> set prototype_names = {}
   \<and> shareMemoryBetween two_scopes ''a'' ''b'' [] ''read-write''
        = Inr (after_share two_scopes [] ''read-write'')
   \<and> recall_in (after_share two_scopes [] ''read-write'') ''b'' ''k'' = JNum 1
   \<and> getMemoryAccessInfo (after_share two_scopes [] ''read-write'') ''b'' ''k''
        = Some \<lparr>sourceScope = ''a'', accessMode = ''read-write'', sharedAt = 0\<rparr>
   \<and> recall_in (put_scope ''a''
          (remember_all \<lparr>keyValueStore = [(''k'', JNum 1)], wrappers = []\<rparr> [(''k'', JNum 2)])
          (after_share two_scopes [] ''read-write'')) ''a'' ''k'' = JNum 2
   \<and> recall_in (put_scope ''a''
          (remember_all \<lparr>keyValueStore = [(''k'', JNum 1)], wrappers = []\<rparr> [(''k'', JNum 2)])
          (after_share two_scopes [] ''read-write'')) ''b'' ''k'' = JNum 1"
proof -
  let ?sm = "\<lparr>keyValueStore = [(''k'', JNum 1)], wrappers = []\<rparr>"
  have h1: "scope_of two_scopes ''a'' = Some ?sm"
    by (simp add: two_scopes_def scope_of_def new_agency_def)
  have h2: "scope_of two_scopes ''b'' = Some new_memory"
    by (simp add: two_scopes_def scope_of_def new_agency_def)
  have h3: "''a'' \<noteq> ''b''" by simp
  have h4: "set ([]::string list) \<inter> set prototype_names = {}" by simp
  from share_copies_and_records [OF h1 h2 h3 h4, of "''read-write''"] obtain s' tm' where
    sh: "shareMemoryBetween two_scopes ''a'' ''b'' [] ''read-write'' = Inr s'"
    and t: "scope_of s' ''b'' = Some tm'"
    and rc: "\<forall>k. recall tm' k =
            (if k \<in> set (if [] \<noteq> ([]::string list) then [] else map fst (keyValueStore ?sm))
                \<and> recall ?sm k \<noteq> JUndef \<and> k \<notin> set (wrappers new_memory)
             then recall ?sm k else recall new_memory k)"
    and g: "\<forall>k. getMemoryAccessInfo s' ''b'' k =
            (if k \<in> set (if [] \<noteq> ([]::string list) then [] else map fst (keyValueStore ?sm))
                \<and> recall ?sm k \<noteq> JUndef
             then Some \<lparr>sourceScope = ''a'', accessMode = ''read-write'', sharedAt = clock two_scopes\<rparr>
             else getMemoryAccessInfo two_scopes ''b'' k)"
    and later: "\<forall>calls. scope_of (put_scope ''a'' (remember_all ?sm calls) s') ''b'' = Some tm'"
    by (elim exE conjE)
  have s': "after_share two_scopes [] ''read-write'' = s'"
    by (simp add: after_share_def sh)
  have c1: "recall tm' ''k'' = JNum 1"
    using rc [rule_format, of "''k''"] by (simp add: recall_def lookup_def new_memory_def)
  have c2: "getMemoryAccessInfo s' ''b'' ''k''
        = Some \<lparr>sourceScope = ''a'', accessMode = ''read-write'', sharedAt = 0\<rparr>"
    using g [rule_format, of "''k''"]
    by (simp add: recall_def lookup_def two_scopes_def new_agency_def)
  have c3: "recall_in (put_scope ''a'' (remember_all ?sm [(''k'', JNum 2)]) s') ''a'' ''k'' = JNum 2"
    by (simp add: recall_in_def remember_def base_remember_def recall_def lookup_def)
  have c4: "recall_in (put_scope ''a'' (remember_all ?sm [(''k'', JNum 2)]) s') ''b'' ''k'' = JNum 1"
    using later [rule_format, of "[(''k'', JNum 2)]"] c1 by (simp add: recall_in_def)
  have c5: "recall_in s' ''b'' ''k'' = JNum 1"
    using t c1 by (simp add: recall_in_def)
  show ?thesis
    unfolding s' using h1 h2 h3 h4 sh c5 c2 c3 c4 by (intro conjI)
qed

text \<open>
  A listed key that the source does not hold gets no grant; and a key that an earlier
  read-only grant covers gets a grant although the current value of the source, 7, is not
  copied: the target keeps 1.
\<close>

theorem share_copies_and_records_counterexample:
  "shareMemoryBetween two_scopes ''a'' ''b'' [''zz''] ''read-write''
        = Inr (after_share two_scopes [''zz''] ''read-write'')
   \<and> getMemoryAccessInfo (after_share two_scopes [''zz''] ''read-write'') ''b'' ''zz'' = None
   \<and> shareMemoryBetween (remember_in ''a'' ''k'' (JNum 7) (after_grant two_keys ''k''))
          ''a'' ''b'' [''k''] ''read-write''
        = Inr (after_share (remember_in ''a'' ''k'' (JNum 7) (after_grant two_keys ''k''))
                 [''k''] ''read-write'')
   \<and> recall_in (after_share (remember_in ''a'' ''k'' (JNum 7) (after_grant two_keys ''k''))
                 [''k''] ''read-write'') ''a'' ''k'' = JNum 7
   \<and> recall_in (after_share (remember_in ''a'' ''k'' (JNum 7) (after_grant two_keys ''k''))
                 [''k''] ''read-write'') ''b'' ''k'' = JNum 1
   \<and> getMemoryAccessInfo (after_share (remember_in ''a'' ''k'' (JNum 7) (after_grant two_keys ''k''))
                 [''k''] ''read-write'') ''b'' ''k''
        = Some \<lparr>sourceScope = ''a'', accessMode = ''read-write'', sharedAt = 0\<rparr>"
  by (simp add: after_share_def after_grant_def two_scopes_def two_keys_def new_agency_def
        new_memory_def shareMemoryBetween_def getMemoryScope_def share_key_def scope_of_def
        put_scope_def emit_def Let_def recall_def recall_in_def lookup_def remember_def
        base_remember_def remember_in_def getMemoryAccessInfo_def)

end
